theory Spec2Isabelle
  imports Main "HOL-Library.AList" "HOL-Library.Multiset"
begin

section \<open>Python values used by the leaderboard parser\<close>

text \<open>
  Python \<open>str\<close> is modelled as \<open>string\<close>, one \<open>char\<close> per code point, so the model
  covers the documents whose code points are below 256. Exceptions are values of
  \<open>error\<close>; a function that can raise returns \<open>error + 'a\<close> with \<open>Inl\<close> the exception.
  The two assertions of \<open>parse_leaderboard\<close> are kept apart:
  \<open>NoLeaderboard\<close> is \<^verbatim>\<open>assert len(matches) > 0\<close> and \<open>ScoreCount\<close> is
  \<^verbatim>\<open>assert len(scores) in (3, 6)\<close>.
\<close>

datatype error = ValueError | NoLeaderboard | ScoreCount | IndexError | KeyError

text \<open>\<^verbatim>\<open>DayScores\<close> of leaderboard.py: six optional strings.\<close>

record DayScores =
  time1 :: "string option"
  rank1 :: "string option"
  score1 :: "string option"
  time2 :: "string option"
  rank2 :: "string option"
  score2 :: "string option"

text \<open>
  \<^verbatim>\<open>str.isspace\<close> on a single code point below 256 (the same class is what
  \<^verbatim>\<open>str.strip()\<close> removes and what \<^verbatim>\<open>\s\<close> matches in a \<open>str\<close> pattern).
\<close>

definition isspace :: "char \<Rightarrow> bool" where
  "isspace c = ((of_char c :: nat) \<in> {9, 10, 11, 12, 13, 28, 29, 30, 31, 32, 133, 160})"

definition strip :: "string \<Rightarrow> string" where
  "strip s = rev (dropWhile isspace (rev (dropWhile isspace s)))"

text \<open>\<^verbatim>\<open>s.split("\n")\<close>: the pieces between newlines, never an empty list.\<close>

fun split_nl :: "string \<Rightarrow> string list" where
  "split_nl [] = [[]]"
| "split_nl (c # cs) =
     (if c = CHR 0x0A then [] # split_nl cs
      else (case split_nl cs of [] \<Rightarrow> [[c]] | l # ls \<Rightarrow> (c # l) # ls))"

text \<open>
  \<^verbatim>\<open>re.split(r"\s+", s)\<close>: the pieces between maximal runs of whitespace; a run at
  either end leaves an empty piece there, and the empty string gives one empty piece.
\<close>

function re_split_ws :: "string \<Rightarrow> string list" where
  "re_split_ws s =
     takeWhile (\<lambda>c. \<not> isspace c) s #
     (case dropWhile (\<lambda>c. \<not> isspace c) s of
        [] \<Rightarrow> []
      | _ # r \<Rightarrow> re_split_ws (dropWhile isspace r))"
  by pat_completeness auto
termination
proof (relation "measure length")
  show "wf (measure length)" by simp
next
  fix s :: string and x r
  assume a: "dropWhile (\<lambda>c. \<not> isspace c) s = x # r"
  have "length (dropWhile isspace r) \<le> length r"
    by (rule length_dropWhile_le)
  moreover have "length (x # r) \<le> length s"
    using length_dropWhile_le [of "\<lambda>c. \<not> isspace c" s] a by simp
  ultimately show "(dropWhile isspace r, s) \<in> measure length"
    by simp
qed

declare re_split_ws.simps [simp del]

text \<open>
  \<^verbatim>\<open>int(s)\<close> for a \<open>str\<close>: surrounding whitespace is dropped, one sign is allowed, and
  the rest is decimal digits with single underscores between digits. Anything else
  raises \<open>ValueError\<close>, here \<open>None\<close>. Two corners are wider than the interpreter: the
  limit on the number of digits (4300 by default) is not modelled, and the characters
  0x1C to 0x1F are dropped at the ends of every string, which \<open>int\<close> does only when the
  string has a character outside ASCII. The tokens that reach \<open>py_int\<close> hold no
  whitespace, so only the first matters, for a day of more than 4300 digits.
\<close>

definition isdigit :: "char \<Rightarrow> bool" where
  "isdigit c = (48 \<le> (of_char c :: nat) \<and> (of_char c :: nat) \<le> 57)"

fun digits :: "nat \<Rightarrow> bool \<Rightarrow> string \<Rightarrow> nat option" where
  "digits acc prev [] = (if prev then Some acc else None)"
| "digits acc prev (c # cs) =
     (if isdigit c then digits (10 * acc + (of_char c - 48)) True cs
      else if c = CHR ''_'' \<and> prev then digits acc False cs
      else None)"

definition py_int :: "string \<Rightarrow> int option" where
  "py_int s =
     (case strip s of
        [] \<Rightarrow> None
      | c # cs \<Rightarrow>
          if c = CHR ''-'' then map_option (\<lambda>n. - int n) (digits 0 False cs)
          else if c = CHR ''+'' then map_option int (digits 0 False cs)
          else map_option int (digits 0 False (c # cs)))"

text \<open>\<^verbatim>\<open>list.insert(i, x)\<close> for \<open>i \<ge> 0\<close>: an index past the end appends.\<close>

definition py_insert :: "nat \<Rightarrow> 'a \<Rightarrow> 'a list \<Rightarrow> 'a list" where
  "py_insert i x xs = take i xs @ x # drop i xs"

section \<open>Locating the table: \<^verbatim>\<open>re.findall(rf"{start}(.*?){end}", html, re.DOTALL)\<close>\<close>

text \<open>
  The start marker is used as a regular expression. Its only operators are the three
  \<^verbatim>\<open> *\<close> of the marker for the years before 2025; every other character stands for
  itself. Each \<^verbatim>\<open> *\<close> is followed by a letter, so taking all the spaces is the only
  way the rest can match and no backtracking is lost.
\<close>

datatype atom = Lit char | Spaces

fun match_atoms :: "atom list \<Rightarrow> string \<Rightarrow> string option" where
  "match_atoms [] s = Some s"
| "match_atoms (Lit c # as) [] = None"
| "match_atoms (Lit c # as) (x # xs) = (if x = c then match_atoms as xs else None)"
| "match_atoms (Spaces # as) s = match_atoms as (dropWhile (\<lambda>c. c = CHR '' '') s)"

fun strip_prefix :: "string \<Rightarrow> string \<Rightarrow> string option" where
  "strip_prefix [] s = Some s"
| "strip_prefix (p # ps) [] = None"
| "strip_prefix (p # ps) (c # cs) = (if p = c then strip_prefix ps cs else None)"

text \<open>\<^verbatim>\<open>sub in s\<close> for strings.\<close>

fun contains :: "string \<Rightarrow> string \<Rightarrow> bool" where
  "contains sub [] = (sub = [])"
| "contains sub (c # cs) = (strip_prefix sub (c # cs) \<noteq> None \<or> contains sub cs)"

text \<open>The lazy group \<^verbatim>\<open>(.*?)\<close> before \<open>e\<close>: the text up to the first \<open>e\<close>, if there is one.\<close>

fun before_first :: "string \<Rightarrow> string \<Rightarrow> string option" where
  "before_first e [] = (if e = [] then Some [] else None)"
| "before_first e (c # cs) =
     (if strip_prefix e (c # cs) \<noteq> None then Some []
      else map_option ((#) c) (before_first e cs))"

definition match_here :: "atom list \<Rightarrow> string \<Rightarrow> string \<Rightarrow> string option" where
  "match_here p e s = (case match_atoms p s of None \<Rightarrow> None | Some r \<Rightarrow> before_first e r)"

text \<open>\<^verbatim>\<open>matches[0]\<close>: the group of the leftmost match, \<open>None\<close> when \<open>matches\<close> is empty.\<close>

fun first_match :: "atom list \<Rightarrow> string \<Rightarrow> string \<Rightarrow> string option" where
  "first_match p e [] = match_here p e []"
| "first_match p e (c # cs) =
     (case match_here p e (c # cs) of Some b \<Rightarrow> Some b | None \<Rightarrow> first_match p e cs)"

definition no_stars :: string where
  "no_stars = ''You haven't collected any stars... yet.''"

definition daydesc :: string where
  "daydesc = ''<span class='' @ [CHR 0x22] @ ''leaderboard-daydesc-both'' @ [CHR 0x22] @ ''>''"

definition start :: "int \<Rightarrow> atom list" where
  "start year =
     (if year < 2025
      then map Lit daydesc @ [Spaces] @ map Lit ''Time'' @ [Spaces] @ map Lit ''Rank'' @
           [Spaces] @ map Lit ''Score</span>'' @ [Lit (CHR 0x0A)]
      else map Lit daydesc @ map Lit ''-Part 2-</span>'' @ [Lit (CHR 0x0A)])"

definition end_marker :: string where
  "end_marker = ''</pre>''"

section \<open>\<^verbatim>\<open>parse_leaderboard\<close>\<close>

text \<open>
  The runtime tracker is outside the repository; only its subscript is used. It is a
  partial map from \<open>(year, day, part)\<close> to the duration as the format \<^verbatim>\<open>:.3f\<close> renders
  it, a missing key being the \<open>KeyError\<close> the source catches.
\<close>

type_synonym runtime_data = "int \<times> int \<times> int \<rightharpoonup> string"

text \<open>\<^verbatim>\<open>DayScores(*scores)\<close>: positional arguments, the missing ones default to \<open>None\<close>.\<close>

definition arg :: "string option list \<Rightarrow> nat \<Rightarrow> string option" where
  "arg xs i = (if i < length xs then xs ! i else None)"

definition mk_DayScores :: "string option list \<Rightarrow> DayScores" where
  "mk_DayScores xs =
     \<lparr>time1 = arg xs 0, rank1 = arg xs 1, score1 = arg xs 2,
      time2 = arg xs 3, rank2 = arg xs 4, score2 = arg xs 5\<rparr>"

text \<open>Lines 38 to 40: the tokens of a line, the day first, each dash replaced by \<open>None\<close>.\<close>

definition day_token :: "string \<Rightarrow> string" where
  "day_token line = hd (re_split_ws (strip line))"

definition score_tokens :: "string \<Rightarrow> string option list" where
  "score_tokens line =
     map (\<lambda>s. if s \<noteq> ''-'' then Some s else None) (tl (re_split_ws (strip line)))"

text \<open>Lines 41 to 46: the placeholders inserted for the years from 2025.\<close>

definition normalize_scores :: "int \<Rightarrow> string option list \<Rightarrow> string option list" where
  "normalize_scores year scores =
     (if year \<ge> 2025
      then (let s = py_insert 1 None (py_insert 1 None scores)
            in if length s > 3 then py_insert 4 None (py_insert 4 None s) else s)
      else scores)"

text \<open>
  Lines 49 to 57. \<open>int(day)\<close> is evaluated first and its \<open>ValueError\<close> is not caught.
  The assignment to \<open>scores[3]\<close> runs in both branches of the second \<^verbatim>\<open>try\<close>, and on a
  list of three it raises \<open>IndexError\<close>, which \<^verbatim>\<open>except KeyError\<close> does not catch.
\<close>

definition substitute_runtime ::
  "runtime_data \<Rightarrow> int \<Rightarrow> string \<Rightarrow> string option list \<Rightarrow> error + string option list" where
  "substitute_runtime rd year day scores =
     (case py_int day of
        None \<Rightarrow> Inl ValueError
      | Some d \<Rightarrow>
          if length scores = 0 then Inl IndexError
          else let scores1 = scores[0 := rd (year, d, 1)]
               in if length scores1 \<le> 3 then Inl IndexError
                  else Inr (scores1[3 := rd (year, d, 2)]))"

text \<open>
  One iteration of the loop over \<open>table_rows\<close>: the day and the record stored under it.
  The second argument is the tracker when \<open>use_runtime\<close> is set and \<open>None\<close> otherwise.
\<close>

definition parse_line :: "int \<Rightarrow> runtime_data option \<Rightarrow> string \<Rightarrow> error + (int \<times> DayScores)" where
  "parse_line year rt line =
     (let day = day_token line;
          scores = normalize_scores year (score_tokens line)
      in if length scores \<noteq> 3 \<and> length scores \<noteq> 6 then Inl ScoreCount
         else case (case rt of None \<Rightarrow> Inr scores
                    | Some rd \<Rightarrow> substitute_runtime rd year day scores) of
                Inl e \<Rightarrow> Inl e
              | Inr scores' \<Rightarrow>
                  (case py_int day of
                     None \<Rightarrow> Inl ValueError
                   | Some d \<Rightarrow> Inr (d, mk_DayScores scores')))"

fun parse_rows ::
  "int \<Rightarrow> runtime_data option \<Rightarrow> string list \<Rightarrow> (int \<rightharpoonup> DayScores) \<Rightarrow> error + (int \<rightharpoonup> DayScores)" where
  "parse_rows year rt [] day_to_scores = Inr day_to_scores"
| "parse_rows year rt (line # rows) day_to_scores =
     (case parse_line year rt line of
        Inl e \<Rightarrow> Inl e
      | Inr (d, r) \<Rightarrow> parse_rows year rt rows (day_to_scores(d \<mapsto> r)))"

text \<open>Lines 33 to 35: the rows of the table, or the failed assertion.\<close>

definition table_rows :: "int \<Rightarrow> string \<Rightarrow> error + string list" where
  "table_rows year html =
     (case first_match (start year) end_marker html of
        None \<Rightarrow> Inl NoLeaderboard
      | Some body \<Rightarrow> Inr (split_nl (strip body)))"

text \<open>
  \<open>get_leaderboard\<close> is the fetch of aoc_runner.web, outside the repository: a function
  from the year to the document.
\<close>

definition parse_leaderboard ::
  "(int \<Rightarrow> string) \<Rightarrow> int \<Rightarrow> runtime_data option \<Rightarrow> bool \<Rightarrow> error + (int \<rightharpoonup> DayScores)" where
  "parse_leaderboard get_leaderboard year runtime_data use_runtime =
     (if use_runtime \<and> runtime_data = None then Inl ValueError
      else let html = get_leaderboard year
           in if contains no_stars html then Inr Map.empty
              else case table_rows year html of
                     Inl e \<Rightarrow> Inl e
                   | Inr rows \<Rightarrow>
                       parse_rows year (if use_runtime then runtime_data else None) rows Map.empty)"

section \<open>\<^verbatim>\<open>TileMaker\<close>: configuration and the star decision\<close>

text \<open>
  The two options the composition reads. \<^verbatim>\<open>__init__\<close> replaces \<open>auto\<close> by a concrete
  value and the argument parser admits no other string, so each option is one of the
  remaining choices.
\<close>

datatype rule = On_leaderboard | File_exists | Either | Both

datatype right_side = Checkmark | Time_and_rank | Runtime

record config =
  what_to_show_on_right_side :: right_side
  count_as_solved_when :: rule
  create_all_days :: bool

text \<open>\<^verbatim>\<open>bool(x)\<close> for an optional string: \<open>None\<close> and the empty string are false.\<close>

definition truthy :: "string option \<Rightarrow> bool" where
  "truthy x = (case x of None \<Rightarrow> False | Some s \<Rightarrow> s \<noteq> [])"

definition on_leaderboard :: "DayScores option \<Rightarrow> nat" where
  "on_leaderboard solved =
     (case solved of
        None \<Rightarrow> 0
      | Some r \<Rightarrow> of_bool (truthy (rank1 r)) + of_bool (truthy (rank2 r)))"

text \<open>
  \<^verbatim>\<open>_get_stars\<close>. The tracker entry \<open>solution\<close> is only measured by \<open>len\<close>, so it is
  modelled by that length: \<open>None\<close> is Python's \<open>None\<close>, \<open>Some n\<close> an entry of length \<open>n\<close>.
\<close>

definition get_stars :: "config \<Rightarrow> DayScores option \<Rightarrow> nat option \<Rightarrow> nat" where
  "get_stars self solved solution =
     (let on_lb = on_leaderboard solved;
          file_exists = (case solution of None \<Rightarrow> 0 | Some n \<Rightarrow> n)
      in case count_as_solved_when self of
           On_leaderboard \<Rightarrow> on_lb
         | File_exists \<Rightarrow> file_exists
         | Either \<Rightarrow> max on_lb file_exists
         | Both \<Rightarrow> min on_lb file_exists)"

section \<open>\<^verbatim>\<open>compose_solve_data\<close>\<close>

text \<open>
  What the composition consumes from outside the repository, for languages of type \<open>'l\<close>:
  the fetch of the leaderboard document, the tracker \<open>solutions_by_year\<close> seen through
  the three ways it is used (\<^verbatim>\<open>year in solutions_by_year\<close>, the entry reached by
  \<^verbatim>\<open>day_to_solution[day]\<close> after the selection of the language, and the subscript
  \<^verbatim>\<open>runtime_data[year, day, part]\<close>), and the relation \<^verbatim>\<open>language.ran\<close>. The
  subscripts of the tracker that the source does not guard are taken as total.
\<close>

record 'l world =
  get_leaderboard :: "int \<Rightarrow> string"
  has_year :: "int \<Rightarrow> bool"
  solution :: "'l \<Rightarrow> int \<Rightarrow> int \<Rightarrow> nat option"
  runtime_of :: runtime_data
  lang_ran :: "'l \<Rightarrow> int \<times> int \<Rightarrow> bool"

text \<open>
  \<^verbatim>\<open>YearData\<close>. The two dictionaries that are iterated later keep Python's insertion
  order as association lists: \<open>AList.update\<close> overwrites in place and appends a new key.
\<close>

record 'l YearData =
  day_to_scores :: "int \<rightharpoonup> DayScores"
  day_to_paths :: "(int \<times> 'l list) list"
  day_to_stars :: "(int \<times> nat) list"

text \<open>
  The state of the loop: \<open>solve_data\<close> is \<^verbatim>\<open>SolveData.year_to_data\<close>, and \<open>fetches\<close>
  records the year of every call of \<open>parse_leaderboard\<close> made so far, each of which
  fetches the document once.
\<close>

record 'l run =
  solve_data :: "int \<rightharpoonup> 'l YearData"
  fetches :: "int list"

definition is_leaderboard_needed :: "config \<Rightarrow> bool" where
  "is_leaderboard_needed self =
     (what_to_show_on_right_side self \<in> {Time_and_rank, Runtime} \<or>
      count_as_solved_when self \<in> {On_leaderboard, Both, Either})"

text \<open>\<^verbatim>\<open>filter(lambda d: (year, d) in language.ran, range(1, 26))\<close>\<close>

definition days_ran :: "'l world \<Rightarrow> 'l \<Rightarrow> int \<Rightarrow> int list" where
  "days_ran w language year = filter (\<lambda>d. lang_ran w language (year, d)) [1..25]"

text \<open>\<^verbatim>\<open>day_to_paths[day]\<close> on the \<open>defaultdict(list)\<close>: a missing day reads as the empty list.\<close>

definition paths_at :: "(int \<times> 'l list) list \<Rightarrow> int \<Rightarrow> 'l list" where
  "paths_at paths day = (case map_of paths day of None \<Rightarrow> [] | Some ls \<Rightarrow> ls)"

text \<open>Line 235: the bonus of day 25.\<close>

definition day25 :: "int \<Rightarrow> nat \<Rightarrow> nat" where
  "day25 day stars = (if day = 25 \<and> stars = 1 then 2 else stars)"

text \<open>Lines 233 to 239, the loop over the days the language ran.\<close>

fun fold_days ::
  "config \<Rightarrow> (int \<rightharpoonup> DayScores) \<Rightarrow> (int \<Rightarrow> nat option) \<Rightarrow> 'l \<Rightarrow> int list \<Rightarrow>
   (int \<times> 'l list) list \<times> (int \<times> nat) list \<Rightarrow> (int \<times> 'l list) list \<times> (int \<times> nat) list" where
  "fold_days self scores sol language [] acc = acc"
| "fold_days self scores sol language (day # days) (paths, stars) =
     (let s = day25 day (get_stars self (scores day) (sol day))
      in fold_days self scores sol language days
           (AList.update day (paths_at paths day @ [language]) paths,
            AList.update day s stars))"

text \<open>
  Lines 220 to 241, one iteration of the loop over \<open>itertools.product(languages, years)\<close>.
  \<open>runtime_data\<close> is the tracker itself, so it is never \<open>None\<close> here.
\<close>

definition snapshot_for :: "config \<Rightarrow> 'l world \<Rightarrow> 'l run \<Rightarrow> int \<Rightarrow> error + (int \<rightharpoonup> DayScores)" where
  "snapshot_for self w st year =
     (if is_leaderboard_needed self
      then parse_leaderboard (get_leaderboard w) year (Some (runtime_of w))
             (what_to_show_on_right_side self = Runtime)
      else Inr (case solve_data st year of None \<Rightarrow> Map.empty | Some yd \<Rightarrow> day_to_scores yd))"

definition compose_iter :: "config \<Rightarrow> 'l world \<Rightarrow> 'l \<times> int \<Rightarrow> 'l run \<Rightarrow> error + 'l run" where
  "compose_iter self w p st =
     (case p of (language, year) \<Rightarrow>
        if \<not> has_year w year then Inr st
        else case snapshot_for self w st year of
               Inl e \<Rightarrow> Inl e
             | Inr scores \<Rightarrow>
                 (let stars0 = (case solve_data st year of None \<Rightarrow> [] | Some yd \<Rightarrow> day_to_stars yd);
                      paths0 = (case solve_data st year of None \<Rightarrow> [] | Some yd \<Rightarrow> day_to_paths yd);
                      r = fold_days self scores (solution w language year) language
                            (days_ran w language year) (paths0, stars0)
                  in Inr \<lparr>solve_data = (solve_data st)(year \<mapsto>
                            \<lparr>day_to_scores = scores, day_to_paths = fst r, day_to_stars = snd r\<rparr>),
                          fetches = (if is_leaderboard_needed self then fetches st @ [year]
                                     else fetches st)\<rparr>))"

fun compose_loop :: "config \<Rightarrow> 'l world \<Rightarrow> ('l \<times> int) list \<Rightarrow> 'l run \<Rightarrow> error + 'l run" where
  "compose_loop self w [] st = Inr st"
| "compose_loop self w (p # ps) st =
     (case compose_iter self w p st of Inl e \<Rightarrow> Inl e | Inr st' \<Rightarrow> compose_loop self w ps st')"

definition compose_solve_data :: "config \<Rightarrow> 'l world \<Rightarrow> 'l list \<Rightarrow> int list \<Rightarrow> error + 'l run" where
  "compose_solve_data self w languages years =
     compose_loop self w (List.product languages years) \<lparr>solve_data = Map.empty, fetches = []\<rparr>"

text \<open>Reading a composed state: the stars and the languages stored for a year and day.\<close>

definition stars_of :: "'l run \<Rightarrow> int \<Rightarrow> int \<Rightarrow> nat option" where
  "stars_of st year day =
     (case solve_data st year of None \<Rightarrow> None | Some yd \<Rightarrow> map_of (day_to_stars yd) day)"

definition paths_of :: "'l run \<Rightarrow> int \<Rightarrow> int \<Rightarrow> 'l list" where
  "paths_of st year day =
     (case solve_data st year of None \<Rightarrow> [] | Some yd \<Rightarrow> paths_at (day_to_paths yd) day)"

definition scores_of :: "'l run \<Rightarrow> int \<Rightarrow> int \<Rightarrow> DayScores option" where
  "scores_of st year day =
     (case solve_data st year of None \<Rightarrow> None | Some yd \<Rightarrow> day_to_scores yd day)"

section \<open>\<^verbatim>\<open>handle_year\<close>\<close>

text \<open>
  The tile drawer and the markup builder are outside the repository. The model keeps
  what \<open>handle_year\<close> computes and looks up before it calls them: the total of the
  header, the range of days, and for each day the arguments handed to \<open>handle_day\<close>.
\<close>

record 'l tile =
  tile_day :: int
  tile_solutions :: "'l list"
  tile_scores :: "DayScores option"
  tile_stars :: nat

text \<open>\<^verbatim>\<open>max((day for day, stars in ... if stars > 0), default=0)\<close>\<close>

definition max_solved_day :: "(int \<times> nat) list \<Rightarrow> int" where
  "max_solved_day stars =
     (case map fst (filter (\<lambda>(day, s). s > 0) stars) of
        [] \<Rightarrow> 0
      | d # ds \<Rightarrow> fold max ds d)"

definition fill_empty_days_in_dict :: "(int \<times> 'l list) list \<Rightarrow> int \<Rightarrow> (int \<times> 'l list) list" where
  "fill_empty_days_in_dict day_to_solutions max_day =
     fold (\<lambda>day d. if map_of d day = None then AList.update day [] d else d)
       [1..max_day] day_to_solutions"

text \<open>
  Lines 298 to 301. \<^verbatim>\<open>day_to_solutions.get(day, [])\<close> and \<^verbatim>\<open>leaderboard.get(day)\<close>
  have defaults; \<^verbatim>\<open>year_data.day_to_stars[day]\<close> is a plain subscript and raises
  \<open>KeyError\<close> on a missing day.
\<close>

fun render_days ::
  "'l YearData \<Rightarrow> (int \<times> 'l list) list \<Rightarrow> int list \<Rightarrow> error + 'l tile list" where
  "render_days year_data day_to_solutions [] = Inr []"
| "render_days year_data day_to_solutions (day # days) =
     (case map_of (day_to_stars year_data) day of
        None \<Rightarrow> Inl KeyError
      | Some stars \<Rightarrow>
          (case render_days year_data day_to_solutions days of
             Inl e \<Rightarrow> Inl e
           | Inr tiles \<Rightarrow>
               Inr (\<lparr>tile_day = day,
                     tile_solutions = paths_at day_to_solutions day,
                     tile_scores = day_to_scores year_data day,
                     tile_stars = stars\<rparr> # tiles)))"

definition handle_year :: "config \<Rightarrow> 'l YearData \<Rightarrow> error + (nat \<times> 'l tile list)" where
  "handle_year self year_data =
     (let stars = sum_list (map snd (day_to_stars year_data));
          max_day = (if create_all_days self then 25
                     else max_solved_day (day_to_stars year_data));
          day_to_solutions = fill_empty_days_in_dict (day_to_paths year_data) max_day
      in case render_days year_data day_to_solutions [1..max_day] of
           Inl e \<Rightarrow> Inl e
         | Inr tiles \<Rightarrow> Inr (stars, tiles))"

section \<open>Measures used to state the properties\<close>

text \<open>The number of leaf fields of a record that are not \<open>None\<close>.\<close>

definition populated :: "DayScores \<Rightarrow> nat" where
  "populated r =
     length (filter (\<lambda>x. x \<noteq> None) [time1 r, rank1 r, score1 r, time2 r, rank2 r, score2 r])"

text \<open>The number of score tokens of a line that are not the dash.\<close>

definition present :: "string option list \<Rightarrow> nat" where
  "present ts = length (filter (\<lambda>x. x \<noteq> None) ts)"

text \<open>Every group of three tokens is all dashes or has no dash.\<close>

fun triples_atomic :: "string option list \<Rightarrow> bool" where
  "triples_atomic (a # b # c # rest) =
     (((a = None) = (b = None)) \<and> ((b = None) = (c = None)) \<and> triples_atomic rest)"
| "triples_atomic rest = True"

text \<open>The languages, in processing order, that attempted a day of a year.\<close>

definition attempted :: "'l world \<Rightarrow> int \<Rightarrow> int \<Rightarrow> 'l list \<Rightarrow> 'l list" where
  "attempted w year day languages = filter (\<lambda>l. lang_ran w l (year, day)) languages"

text \<open>The total of a year as \<open>handle_year\<close> sums it.\<close>

definition total_stars :: "'l run \<Rightarrow> int \<Rightarrow> nat" where
  "total_stars st year =
     (case solve_data st year of None \<Rightarrow> 0 | Some yd \<Rightarrow> sum_list (map snd (day_to_stars yd)))"

text \<open>
  The languages appended to the list of a day by a sequence of iterations: those of the
  pairs with that year whose language ran the day, in the order of the pairs.
\<close>

definition contributors :: "'l world \<Rightarrow> int \<Rightarrow> int \<Rightarrow> ('l \<times> int) list \<Rightarrow> 'l list" where
  "contributors w year day ps =
     map fst (filter (\<lambda>p. snd p = year \<and> lang_ran w (fst p) (year, day) \<and> 1 \<le> day \<and> day \<le> 25) ps)"

text \<open>The decision of \<^verbatim>\<open>_get_stars\<close> for one language on one day, given the snapshot.\<close>

definition decided :: "config \<Rightarrow> 'l world \<Rightarrow> (int \<rightharpoonup> DayScores) \<Rightarrow> 'l \<Rightarrow> int \<Rightarrow> int \<Rightarrow> nat" where
  "decided self w scores language year day =
     get_stars self (scores day) (solution w language year day)"

text \<open>The state before the first iteration: \<^verbatim>\<open>SolveData({})\<close> and no fetch.\<close>

definition init :: "'l run" where
  "init = \<lparr>solve_data = Map.empty, fetches = []\<rparr>"

section \<open>Concrete inputs\<close>

definition always :: "string \<Rightarrow> int \<Rightarrow> string" where
  "always doc year = doc"

text \<open>A document in the layout of the years from 2025 whose table has the line \<^verbatim>\<open>5 - 99 888\<close>.\<close>

definition doc_2025_three_tokens :: string where
  "doc_2025_three_tokens =
     ''<pre>'' @ daydesc @ ''-Part 2-</span>'' @ [CHR 0x0A] @
     ''5 - 99 888'' @ [CHR 0x0A] @ ''</pre>''"

text \<open>A document in the layout of the years from 2025 with the two times of day 5.\<close>

definition doc_2025_times :: string where
  "doc_2025_times =
     ''<pre>'' @ daydesc @ ''-Part 2-</span>'' @ [CHR 0x0A] @
     ''  5   00:10:00   00:20:00'' @ [CHR 0x0A] @ ''</pre>''"

text \<open>A document of 2020 whose day 5 has the three fields of part 1 only.\<close>

definition doc_2020_one_part :: string where
  "doc_2020_one_part =
     ''<pre>'' @ daydesc @ ''   Time   Rank  Score</span>'' @ [CHR 0x0A] @
     ''  5   00:12:34   123   456'' @ [CHR 0x0A] @ ''</pre>''"

text \<open>A document of 2021 with both parts of day 1.\<close>

definition doc_2021_full :: string where
  "doc_2021_full =
     ''<pre>'' @ daydesc @ ''   Time   Rank  Score</span>'' @ [CHR 0x0A] @
     ''  1   00:12:34   123   456   01:02:03   45   678'' @ [CHR 0x0A] @ ''</pre>''"

definition runtime_2020 :: runtime_data where
  "runtime_2020 = [(2020, 5, 1) \<mapsto> ''1.500'']"

definition cfg_files :: config where
  "cfg_files =
     \<lparr>what_to_show_on_right_side = Checkmark, count_as_solved_when = File_exists,
      create_all_days = False\<rparr>"

definition cfg_board :: config where
  "cfg_board =
     \<lparr>what_to_show_on_right_side = Time_and_rank, count_as_solved_when = On_leaderboard,
      create_all_days = False\<rparr>"

text \<open>
  Two languages in 2020, without the leaderboard: python has two files for each day and
  ran days 1 and 3; rust has one file for each day and ran days 1 and 25.
\<close>

definition w_files :: "string world" where
  "w_files =
     \<lparr>get_leaderboard = always [],
      has_year = (\<lambda>y. y = 2020),
      solution = (\<lambda>l y d. if l = ''python'' then Some 2 else Some 1),
      runtime_of = Map.empty,
      lang_ran = (\<lambda>l p. p = (2020, 1) \<or> (l = ''python'' \<and> p = (2020, 3)) \<or>
                     (l = ''rust'' \<and> p = (2020, 25)))\<rparr>"

text \<open>
  Two years with the leaderboard: the document of 2021 is a leaderboard, the document of
  2020 is not.
\<close>

definition w_board :: "string world" where
  "w_board =
     \<lparr>get_leaderboard = (\<lambda>y. if y = 2021 then doc_2021_full else ''<html>log in</html>''),
      has_year = (\<lambda>y. y = 2020 \<or> y = 2021),
      solution = (\<lambda>l y d. Some 2),
      runtime_of = Map.empty,
      lang_ran = (\<lambda>l p. p = (2020, 1) \<or> p = (2021, 1))\<rparr>"

text \<open>Projections of a result, so that a failed run stays visible.\<close>

definition stars_in :: "error + 'l run \<Rightarrow> int \<Rightarrow> int \<Rightarrow> error + nat option" where
  "stars_in res year day = (case res of Inl e \<Rightarrow> Inl e | Inr st \<Rightarrow> Inr (stars_of st year day))"

definition fetches_in :: "error + 'l run \<Rightarrow> error + int list" where
  "fetches_in res = (case res of Inl e \<Rightarrow> Inl e | Inr st \<Rightarrow> Inr (fetches st))"

definition year_in :: "config \<Rightarrow> error + 'l run \<Rightarrow> int \<Rightarrow> error + (nat \<times> 'l tile list) option" where
  "year_in self res year =
     (case res of
        Inl e \<Rightarrow> Inl e
      | Inr st \<Rightarrow>
          (case solve_data st year of
             None \<Rightarrow> Inr None
           | Some yd \<Rightarrow> (case handle_year self yd of Inl e \<Rightarrow> Inl e | Inr t \<Rightarrow> Inr (Some t))))"

definition record_in :: "error + (int \<rightharpoonup> DayScores) \<Rightarrow> int \<Rightarrow> error + DayScores option" where
  "record_in res day = (case res of Inl e \<Rightarrow> Inl e | Inr m \<Rightarrow> Inr (m day))"

section \<open>The parser: lists and lines\<close>

lemma length_py_insert: "length (py_insert i x xs) = Suc (length xs)"
  by (simp add: py_insert_def)

lemma present_py_insert: "present (py_insert i None xs) = present xs"
proof -
  have "filter (\<lambda>x. x \<noteq> None) (take i xs @ drop i xs) = filter (\<lambda>x. x \<noteq> None) xs"
    by simp
  then show ?thesis
    by (simp add: present_def py_insert_def del: append_take_drop_id)
qed

lemma length_normalize_scores:
  "length (normalize_scores year ts) =
     (if 2025 \<le> year then (if 2 \<le> length ts then length ts + 4 else length ts + 2)
      else length ts)"
  by (simp add: normalize_scores_def Let_def length_py_insert)

lemma present_normalize: "present (normalize_scores year ts) = present ts"
  by (simp add: normalize_scores_def Let_def present_py_insert)

lemma normalize_one: "2025 \<le> year \<Longrightarrow> normalize_scores year [t] = [t, None, None]"
  by (simp add: normalize_scores_def py_insert_def)

lemma normalize_two:
  "2025 \<le> year \<Longrightarrow> normalize_scores year [t, u] = [t, None, None, u, None, None]"
  by (simp add: normalize_scores_def py_insert_def)

lemma list3: "length xs = 3 \<Longrightarrow> \<exists>a b c. xs = [a, b, c]"
  by (auto simp: length_Suc_conv numeral_3_eq_3)

lemma list6: "length xs = 6 \<Longrightarrow> \<exists>a b c d e f. xs = [a, b, c, d, e, f]"
proof -
  assume "length xs = 6"
  then have "length xs = Suc (Suc (Suc (Suc (Suc (Suc 0)))))" by simp
  then show ?thesis by (auto simp: length_Suc_conv)
qed

lemma populated_mk:
  assumes "length xs = 3 \<or> length xs = 6"
  shows "populated (mk_DayScores xs) = present xs"
  using assms
proof
  assume "length xs = 3"
  then obtain a b c where "xs = [a, b, c]" using list3 by blast
  then show ?thesis by (simp add: populated_def present_def mk_DayScores_def arg_def)
next
  assume "length xs = 6"
  then obtain a b c d e f where "xs = [a, b, c, d, e, f]" using list6 by blast
  then show ?thesis by (simp add: populated_def present_def mk_DayScores_def arg_def)
qed

lemma parse_line_plain:
  "parse_line year None line =
     (if length (normalize_scores year (score_tokens line)) \<noteq> 3 \<and>
         length (normalize_scores year (score_tokens line)) \<noteq> 6 then Inl ScoreCount
      else case py_int (day_token line) of
             None \<Rightarrow> Inl ValueError
           | Some d \<Rightarrow> Inr (d, mk_DayScores (normalize_scores year (score_tokens line))))"
  by (simp add: parse_line_def Let_def)

lemma parse_line_count:
  "length (normalize_scores year (score_tokens line)) \<noteq> 3 \<Longrightarrow>
   length (normalize_scores year (score_tokens line)) \<noteq> 6 \<Longrightarrow> parse_line year rt line = Inl ScoreCount"
  by (simp add: parse_line_def Let_def)

lemma parse_rows_fails:
  "line \<in> set rows \<Longrightarrow> parse_line year rt line = Inl e \<Longrightarrow>
   \<exists>e'. parse_rows year rt rows m = Inl e'"
proof (induction rows arbitrary: m)
  case Nil
  then show ?case by simp
next
  case (Cons r rows)
  show ?case
  proof (cases "parse_line year rt r")
    case (Inl e0)
    then show ?thesis by simp
  next
    case (Inr p)
    with Cons.prems have "line \<in> set rows" by auto
    from Cons.IH [OF this Cons.prems(2)] Inr show ?thesis
      by (cases p) simp
  qed
qed

lemma parse_rows_source:
  "parse_rows year rt rows m0 = Inr m \<Longrightarrow> m d = Some r \<Longrightarrow>
   m0 d = Some r \<or> (\<exists>line \<in> set rows. parse_line year rt line = Inr (d, r))"
proof (induction rows arbitrary: m0)
  case Nil
  then show ?case by simp
next
  case (Cons l rows)
  from Cons.prems(1) obtain d0 r0 where
    l: "parse_line year rt l = Inr (d0, r0)" and
    rest: "parse_rows year rt rows (m0(d0 \<mapsto> r0)) = Inr m"
    by (auto split: sum.splits)
  from Cons.IH [OF rest Cons.prems(2)]
  have "(m0(d0 \<mapsto> r0)) d = Some r \<or> (\<exists>line \<in> set rows. parse_line year rt line = Inr (d, r))" .
  then show ?case
  proof
    assume "(m0(d0 \<mapsto> r0)) d = Some r"
    then show ?thesis using l by (cases "d = d0") auto
  next
    assume "\<exists>line \<in> set rows. parse_line year rt line = Inr (d, r)"
    then show ?thesis by auto
  qed
qed

lemma atomic_present:
  assumes "length ts = 3 \<or> length ts = 6" and "triples_atomic ts"
  shows "present ts = 0 \<or> present ts = 3 \<or> present ts = 6"
  using assms(1)
proof
  assume "length ts = 3"
  then obtain a b c where "ts = [a, b, c]" using list3 by blast
  with assms(2) show ?thesis by (auto simp: present_def)
next
  assume "length ts = 6"
  then obtain a b c d e f where "ts = [a, b, c, d, e, f]" using list6 by blast
  with assms(2) show ?thesis by (auto simp: present_def)
qed

lemma present_le: "present ts \<le> length ts"
  by (simp add: present_def)

lemma list1: "length xs = Suc 0 \<Longrightarrow> \<exists>a. xs = [a]"
  by (auto simp: length_Suc_conv)

lemma list2: "length xs = 2 \<Longrightarrow> \<exists>a b. xs = [a, b]"
  by (auto simp: length_Suc_conv numeral_2_eq_2)

lemma mk_post_cutoff:
  assumes "2025 \<le> year" and "length ts = 1 \<or> length ts = 2"
  shows "rank1 (mk_DayScores (normalize_scores year ts)) = None \<and>
         score1 (mk_DayScores (normalize_scores year ts)) = None \<and>
         rank2 (mk_DayScores (normalize_scores year ts)) = None \<and>
         score2 (mk_DayScores (normalize_scores year ts)) = None"
  using assms(2)
proof
  assume "length ts = 1"
  then obtain a where "ts = [a]" using list1 by auto
  with assms(1) show ?thesis by (simp add: normalize_one mk_DayScores_def arg_def)
next
  assume "length ts = 2"
  then obtain a b where "ts = [a, b]" using list2 by blast
  with assms(1) show ?thesis by (simp add: normalize_two mk_DayScores_def arg_def)
qed

text \<open>
  Claim C1, as the code has it. For a year from 2025 the parser inserts two absent
  values after the first score token and, when more than three fields result, two more
  at index 4. So a line with one score token gives a record whose only possibly
  populated field is the time of part 1, a line with two score tokens gives the two
  times, and a line with any other number of score tokens (the three of
  \<^verbatim>\<open>5 - 99 888\<close> among them) fails the assertion on the number of scores and makes the
  parse of every document whose table holds it fail.
\<close>

theorem post_cutoff_line:
  assumes "2025 \<le> year"
  shows "(length (score_tokens line) = 1 \<longrightarrow>
            parse_line year None line =
              (case py_int (day_token line) of
                 None \<Rightarrow> Inl ValueError
               | Some d \<Rightarrow>
                   Inr (d, \<lparr>time1 = score_tokens line ! 0, rank1 = None, score1 = None,
                            time2 = None, rank2 = None, score2 = None\<rparr>))) \<and>
         (length (score_tokens line) = 2 \<longrightarrow>
            parse_line year None line =
              (case py_int (day_token line) of
                 None \<Rightarrow> Inl ValueError
               | Some d \<Rightarrow>
                   Inr (d, \<lparr>time1 = score_tokens line ! 0, rank1 = None, score1 = None,
                            time2 = score_tokens line ! 1, rank2 = None, score2 = None\<rparr>))) \<and>
         (length (score_tokens line) \<noteq> 1 \<and> length (score_tokens line) \<noteq> 2 \<longrightarrow>
            parse_line year rt line = Inl ScoreCount \<and>
            (\<not> contains no_stars (gl year) \<and> table_rows year (gl year) = Inr rows \<and>
             line \<in> set rows \<longrightarrow> (\<exists>e. parse_leaderboard gl year rt ur = Inl e)))"
proof (intro conjI impI)
  assume "length (score_tokens line) = 1"
  then obtain a where a: "score_tokens line = [a]" using list1 by auto
  show "parse_line year None line =
          (case py_int (day_token line) of
             None \<Rightarrow> Inl ValueError
           | Some d \<Rightarrow>
               Inr (d, \<lparr>time1 = score_tokens line ! 0, rank1 = None, score1 = None,
                        time2 = None, rank2 = None, score2 = None\<rparr>))"
    using assms a
    by (simp add: parse_line_plain normalize_one mk_DayScores_def arg_def split: option.splits)
next
  assume "length (score_tokens line) = 2"
  then obtain a b where a: "score_tokens line = [a, b]" using list2 by blast
  show "parse_line year None line =
          (case py_int (day_token line) of
             None \<Rightarrow> Inl ValueError
           | Some d \<Rightarrow>
               Inr (d, \<lparr>time1 = score_tokens line ! 0, rank1 = None, score1 = None,
                        time2 = score_tokens line ! 1, rank2 = None, score2 = None\<rparr>))"
    using assms a
    by (simp add: parse_line_plain normalize_two mk_DayScores_def arg_def split: option.splits)
next
  assume n: "length (score_tokens line) \<noteq> 1 \<and> length (score_tokens line) \<noteq> 2"
  with assms show bad: "parse_line year rt line = Inl ScoreCount"
    by (intro parse_line_count) (auto simp: length_normalize_scores)
  assume h: "\<not> contains no_stars (gl year) \<and> table_rows year (gl year) = Inr rows \<and>
     line \<in> set rows"
  show "\<exists>e. parse_leaderboard gl year rt ur = Inl e"
  proof (cases "ur \<and> rt = None")
    case True
    then show ?thesis by (simp add: parse_leaderboard_def)
  next
    case False
    have bad': "parse_line year (if ur then rt else None) line = Inl ScoreCount"
      using assms n by (intro parse_line_count) (auto simp: length_normalize_scores)
    from h have "line \<in> set rows" by simp
    from parse_rows_fails [OF this bad']
    obtain e' where "parse_rows year (if ur then rt else None) rows Map.empty = Inl e'" by blast
    with h False show ?thesis
      by (auto simp: parse_leaderboard_def Let_def)
  qed
qed

text \<open>The theorem at the line \<^verbatim>\<open>5 - 99 888\<close> and at a line with two times.\<close>

theorem post_cutoff_line_witness:
  "(2025::int) \<le> 2025 \<and>
   length (score_tokens ''5 - 99 888'') \<noteq> 1 \<and>
   length (score_tokens ''5 - 99 888'') \<noteq> 2 \<and>
   \<not> contains no_stars (always doc_2025_three_tokens 2025) \<and>
   table_rows 2025 (always doc_2025_three_tokens 2025) = Inr [''5 - 99 888''] \<and>
   parse_line 2025 None ''5 - 99 888'' = Inl ScoreCount \<and>
   (\<exists>e. parse_leaderboard (always doc_2025_three_tokens) 2025 None False = Inl e) \<and>
   length (score_tokens ''5   00:10:00   00:20:00'') = 2 \<and>
   parse_line 2025 None ''5   00:10:00   00:20:00'' =
     Inr (5, \<lparr>time1 = Some ''00:10:00'', rank1 = None, score1 = None,
              time2 = Some ''00:20:00'', rank2 = None, score2 = None\<rparr>)"
proof -
  have t3: "score_tokens ''5 - 99 888'' = [None, Some ''99'', Some ''888'']"
    by code_simp
  have ns: "\<not> contains no_stars (always doc_2025_three_tokens 2025)"
    by code_simp
  have rows: "table_rows 2025 (always doc_2025_three_tokens 2025) = Inr [''5 - 99 888'']"
    by code_simp
  have t2: "score_tokens ''5   00:10:00   00:20:00'' = [Some ''00:10:00'', Some ''00:20:00'']"
    by code_simp
  have d: "py_int (day_token ''5   00:10:00   00:20:00'') = Some 5"
    by code_simp
  show ?thesis
    using post_cutoff_line [of 2025 "''5 - 99 888''" None "always doc_2025_three_tokens"
            "[''5 - 99 888'']" False]
          post_cutoff_line [of 2025 "''5   00:10:00   00:20:00''"]
          t3 ns rows t2 d
    by simp
qed

text \<open>
  Claim C1 as stated fails: the document of 2025 whose table is the line
  \<^verbatim>\<open>5 - 99 888\<close> is rejected, no record for day 5 is produced.
\<close>

theorem three_tokens_rejected:
  "parse_leaderboard (always doc_2025_three_tokens) 2025 None False = Inl ScoreCount"
proof -
  have "record_in (parse_leaderboard (always doc_2025_three_tokens) 2025 None False) 5 =
          Inl ScoreCount"
    by code_simp
  then show ?thesis
    by (simp add: record_in_def split: sum.splits)
qed

lemma parse_leaderboard_source:
  assumes "parse_leaderboard gl year rt ur = Inr m" and "m d = Some r"
  shows "\<exists>rows line. table_rows year (gl year) = Inr rows \<and> line \<in> set rows \<and>
           parse_line year (if ur then rt else None) line = Inr (d, r)"
proof -
  from assms(1) have a: "\<not> (ur \<and> rt = None)"
    by (auto simp: parse_leaderboard_def split: if_splits)
  show ?thesis
  proof (cases "contains no_stars (gl year)")
    case True
    with assms a show ?thesis by (auto simp: parse_leaderboard_def Let_def)
  next
    case False
    with assms(1) a obtain rows where
      rows: "table_rows year (gl year) = Inr rows" and
      pr: "parse_rows year (if ur then rt else None) rows Map.empty = Inr m"
      by (auto simp: parse_leaderboard_def Let_def split: sum.splits if_splits)
    from parse_rows_source [OF pr assms(2)] rows show ?thesis by auto
  qed
qed

lemma parse_line_plain_Inr:
  assumes "parse_line year None line = Inr (d, r)"
  shows "r = mk_DayScores (normalize_scores year (score_tokens line)) \<and>
         (length (normalize_scores year (score_tokens line)) = 3 \<or>
          length (normalize_scores year (score_tokens line)) = 6)"
  using assms by (auto simp: parse_line_plain split: if_splits option.splits)

text \<open>
  Claim C8, as the code has it. Without runtime substitution every record of a parsed
  snapshot is the record that one iteration of the loop produces, under the same day,
  from a line of the table, and it has as many populated fields as that line has score
  tokens other than the dash. Before 2025 the line has 3 or 6 score tokens, and
  the count is 0, 3 or 6 when every group of three tokens is all dashes or free of
  dashes. From 2025 the line has 1 or 2 score tokens, so at most two fields are
  populated, and they are times: the ranks and scores are always absent.
\<close>

theorem populated_fields:
  assumes "parse_leaderboard gl year rt False = Inr m" and "m d = Some r"
  shows "\<exists>rows line. table_rows year (gl year) = Inr rows \<and> line \<in> set rows \<and>
           parse_line year None line = Inr (d, r) \<and>
           populated r = present (score_tokens line) \<and>
           (if year < 2025
            then (length (score_tokens line) = 3 \<or> length (score_tokens line) = 6) \<and>
                 (triples_atomic (score_tokens line) \<longrightarrow>
                    populated r = 0 \<or> populated r = 3 \<or> populated r = 6)
            else (length (score_tokens line) = 1 \<or> length (score_tokens line) = 2) \<and>
                 populated r \<le> 2 \<and> rank1 r = None \<and> score1 r = None \<and>
                 rank2 r = None \<and> score2 r = None)"
proof -
  from parse_leaderboard_source [OF assms] obtain rows line where
    rows: "table_rows year (gl year) = Inr rows" and line: "line \<in> set rows" and
    pl: "parse_line year None line = Inr (d, r)"
    by auto
  let ?ts = "score_tokens line"
  from parse_line_plain_Inr [OF pl] have
    r: "r = mk_DayScores (normalize_scores year ?ts)" and
    len: "length (normalize_scores year ?ts) = 3 \<or> length (normalize_scores year ?ts) = 6"
    by auto
  have pop: "populated r = present ?ts"
    using populated_mk [OF len] r by (simp add: present_normalize)
  have shape:
    "if year < 2025
     then (length ?ts = 3 \<or> length ?ts = 6) \<and>
          (triples_atomic ?ts \<longrightarrow> populated r = 0 \<or> populated r = 3 \<or> populated r = 6)
     else (length ?ts = 1 \<or> length ?ts = 2) \<and>
          populated r \<le> 2 \<and> rank1 r = None \<and> score1 r = None \<and>
          rank2 r = None \<and> score2 r = None"
  proof (cases "year < 2025")
    case True
    with len have l: "length ?ts = 3 \<or> length ?ts = 6"
      by (simp add: length_normalize_scores)
    with True pop atomic_present [OF l] show ?thesis by simp
  next
    case False
    with len have l: "length ?ts = 1 \<or> length ?ts = 2"
      by (auto simp: length_normalize_scores split: if_splits)
    have "populated r \<le> 2" using pop present_le [of ?ts] l by auto
    moreover from False have "2025 \<le> year" by simp
    from mk_post_cutoff [OF this l] r
    have "rank1 r = None \<and> score1 r = None \<and> rank2 r = None \<and> score2 r = None" by simp
    ultimately show ?thesis using False l by simp
  qed
  from rows line pl pop shape show ?thesis by blast
qed

lemma times_2025:
  "record_in (parse_leaderboard (always doc_2025_times) 2025 None False) 5 =
     Inr (Some \<lparr>time1 = Some ''00:10:00'', rank1 = None, score1 = None,
                time2 = Some ''00:20:00'', rank2 = None, score2 = None\<rparr>)"
  by code_simp

lemma full_2021:
  "record_in (parse_leaderboard (always doc_2021_full) 2021 None False) 1 =
     Inr (Some \<lparr>time1 = Some ''00:12:34'', rank1 = Some ''123'', score1 = Some ''456'',
                time2 = Some ''01:02:03'', rank2 = Some ''45'', score2 = Some ''678''\<rparr>)"
  by code_simp

text \<open>
  The theorem at the document of 2025 with the two times of day 5, and at the document
  of 2021 with both parts of day 1.
\<close>

theorem populated_fields_witness:
  "(\<exists>m r. parse_leaderboard (always doc_2025_times) 2025 None False = Inr m \<and>
          m 5 = Some r \<and> populated r = 2 \<and> rank1 r = None \<and> rank2 r = None) \<and>
   (\<exists>m r line. parse_leaderboard (always doc_2021_full) 2021 None False = Inr m \<and>
          m 1 = Some r \<and> parse_line 2021 None line = Inr (1, r) \<and>
          populated r = present (score_tokens line) \<and> populated r = 6)"
proof
  from times_2025 obtain m where
    m: "parse_leaderboard (always doc_2025_times) 2025 None False = Inr m" and
    r: "m 5 = Some \<lparr>time1 = Some ''00:10:00'', rank1 = None, score1 = None,
                     time2 = Some ''00:20:00'', rank2 = None, score2 = None\<rparr>"
    by (auto simp: record_in_def split: sum.splits)
  from populated_fields [OF m r] m r
  show "\<exists>m r. parse_leaderboard (always doc_2025_times) 2025 None False = Inr m \<and>
          m 5 = Some r \<and> populated r = 2 \<and> rank1 r = None \<and> rank2 r = None"
    by (auto simp: populated_def)
next
  let ?r = "\<lparr>time1 = Some ''00:12:34'', rank1 = Some ''123'', score1 = Some ''456'',
             time2 = Some ''01:02:03'', rank2 = Some ''45'', score2 = Some ''678''\<rparr>"
  from full_2021 obtain m where
    m: "parse_leaderboard (always doc_2021_full) 2021 None False = Inr m" and
    r: "m 1 = Some ?r"
    by (auto simp: record_in_def split: sum.splits)
  have six: "populated ?r = 6" by (simp add: populated_def)
  from populated_fields [OF m r] obtain line where
    "parse_line 2021 None line = Inr (1, ?r)" and "populated ?r = present (score_tokens line)"
    by auto
  with m r six
  show "\<exists>m r line. parse_leaderboard (always doc_2021_full) 2021 None False = Inr m \<and>
          m 1 = Some r \<and> parse_line 2021 None line = Inr (1, r) \<and>
          populated r = present (score_tokens line) \<and> populated r = 6"
    by blast
qed

text \<open>
  Claim C8 as stated fails: the record of day 5 parsed from the document of 2025 has
  exactly two populated fields.
\<close>

theorem two_populated_fields:
  "record_in (parse_leaderboard (always doc_2025_times) 2025 None False) 5 =
     Inr (Some \<lparr>time1 = Some ''00:10:00'', rank1 = None, score1 = None,
                time2 = Some ''00:20:00'', rank2 = None, score2 = None\<rparr>) \<and>
   populated \<lparr>time1 = Some ''00:10:00'', rank1 = None, score1 = None,
              time2 = Some ''00:20:00'', rank2 = None, score2 = None\<rparr> = 2"
proof
  show "record_in (parse_leaderboard (always doc_2025_times) 2025 None False) 5 =
     Inr (Some \<lparr>time1 = Some ''00:10:00'', rank1 = None, score1 = None,
                time2 = Some ''00:20:00'', rank2 = None, score2 = None\<rparr>)"
    by code_simp
  show "populated \<lparr>time1 = Some ''00:10:00'', rank1 = None, score1 = None,
              time2 = Some ''00:20:00'', rank2 = None, score2 = None\<rparr> = 2"
    by (simp add: populated_def)
qed

text \<open>
  With a runtime lookup, a line of six fields gets both its times from the lookup, a
  missing entry leaving the time absent; a line of three fields never parses.
\<close>

lemma runtime_six_fields:
  assumes "length (normalize_scores year (score_tokens line)) = 6"
    and "py_int (day_token line) = Some d"
  shows "parse_line year (Some rd) line =
     Inr (d, mk_DayScores ((normalize_scores year (score_tokens line))
                             [0 := rd (year, d, 1), 3 := rd (year, d, 2)]))"
  using assms by (simp add: parse_line_def substitute_runtime_def Let_def)

lemma runtime_three_fields:
  assumes "length (normalize_scores year (score_tokens line)) = 3"
  shows "parse_line year (Some rd) line = Inl IndexError \<or>
         parse_line year (Some rd) line = Inl ValueError"
  using assms
  by (simp add: parse_line_def substitute_runtime_def Let_def split: option.splits)

text \<open>
  Claim C6 at a failing input: with a runtime lookup, a line that has the fields of
  part 1 only makes the parse raise \<open>IndexError\<close>, although the lookup has an entry for
  part 1 of that day.
\<close>

theorem runtime_one_part_fails:
  "parse_leaderboard (always doc_2020_one_part) 2020 (Some runtime_2020) True = Inl IndexError"
proof -
  have "record_in (parse_leaderboard (always doc_2020_one_part) 2020 (Some runtime_2020) True) 5 =
          Inl IndexError"
    by code_simp
  then show ?thesis
    by (simp add: record_in_def split: sum.splits)
qed

lemma on_leaderboard_le: "on_leaderboard solved \<le> 2"
  by (simp add: on_leaderboard_def split: option.splits)

text \<open>
  Claim C5, as the code has it. The decision is the count of truthy ranks for
  \<open>on_leaderboard\<close>, the number of local files for \<open>file_exists\<close>, their maximum for
  \<open>either\<close> and their minimum for \<open>both\<close>; the number of local files is not capped.
  The count of ranks is at most 2 and is 0 for an absent record, so the result is at
  most 2 under \<open>on_leaderboard\<close> and \<open>both\<close>, and under the other rules when there are
  at most two local files.
\<close>

theorem star_decision:
  "get_stars self solved sol =
     (case count_as_solved_when self of
        On_leaderboard \<Rightarrow> on_leaderboard solved
      | File_exists \<Rightarrow> (case sol of None \<Rightarrow> 0 | Some n \<Rightarrow> n)
      | Either \<Rightarrow> max (on_leaderboard solved) (case sol of None \<Rightarrow> 0 | Some n \<Rightarrow> n)
      | Both \<Rightarrow> min (on_leaderboard solved) (case sol of None \<Rightarrow> 0 | Some n \<Rightarrow> n)) \<and>
   on_leaderboard solved \<le> 2 \<and> on_leaderboard None = 0 \<and>
   (count_as_solved_when self = On_leaderboard \<or> count_as_solved_when self = Both \<or>
    (case sol of None \<Rightarrow> 0 | Some n \<Rightarrow> n) \<le> 2 \<longrightarrow> get_stars self solved sol \<le> 2)"
proof -
  have le: "on_leaderboard solved \<le> 2" by (rule on_leaderboard_le)
  have eq: "get_stars self solved sol =
     (case count_as_solved_when self of
        On_leaderboard \<Rightarrow> on_leaderboard solved
      | File_exists \<Rightarrow> (case sol of None \<Rightarrow> 0 | Some n \<Rightarrow> n)
      | Either \<Rightarrow> max (on_leaderboard solved) (case sol of None \<Rightarrow> 0 | Some n \<Rightarrow> n)
      | Both \<Rightarrow> min (on_leaderboard solved) (case sol of None \<Rightarrow> 0 | Some n \<Rightarrow> n))"
    by (simp add: get_stars_def Let_def)
  have z: "on_leaderboard None = 0" by (simp add: on_leaderboard_def)
  have b: "count_as_solved_when self = On_leaderboard \<or> count_as_solved_when self = Both \<or>
    (case sol of None \<Rightarrow> 0 | Some n \<Rightarrow> n) \<le> 2 \<longrightarrow> get_stars self solved sol \<le> 2"
    using le by (cases "count_as_solved_when self") (auto simp: eq)
  from eq le z b show ?thesis by blast
qed

text \<open>
  The theorem at one local file under \<open>file_exists\<close>.
\<close>

theorem star_decision_witness:
  "count_as_solved_when cfg_files = File_exists \<and>
   get_stars cfg_files None (Some 1) = 1 \<and> get_stars cfg_files None (Some 1) \<le> 2"
  using star_decision [of cfg_files None "Some 1"]
  by (simp add: cfg_files_def)

text \<open>
  Claim C5 as stated fails: three local files under \<open>file_exists\<close> give three stars,
  not \<open>min 3 2\<close>.
\<close>

theorem three_files_three_stars:
  "get_stars cfg_files None (Some 3) = 3 \<and> get_stars cfg_files None (Some 3) \<noteq> min 3 2"
  by (simp add: get_stars_def cfg_files_def on_leaderboard_def)

section \<open>The composition: one iteration\<close>

lemma paths_at_update:
  "paths_at (AList.update k v paths) d = (if d = k then v else paths_at paths d)"
  by (simp add: paths_at_def update_conv')

lemma in_days_ran:
  "d \<in> set (days_ran w l y) \<longleftrightarrow> lang_ran w l (y, d) \<and> 1 \<le> d \<and> d \<le> 25"
  by (auto simp: days_ran_def)

lemma distinct_days_ran: "distinct (days_ran w l y)"
  by (simp add: days_ran_def)

lemma fold_days_stars:
  "map_of (snd (fold_days self sc sol l days acc)) d =
     (if d \<in> set days then Some (day25 d (get_stars self (sc d) (sol d)))
      else map_of (snd acc) d)"
proof (induction days arbitrary: acc)
  case Nil
  show ?case by simp
next
  case (Cons day days)
  obtain paths stars where acc: "acc = (paths, stars)" by (cases acc)
  show ?case
    by (simp add: acc Let_def Cons.IH update_conv')
qed

lemma fold_days_paths:
  "distinct days \<Longrightarrow>
   paths_at (fst (fold_days self sc sol l days acc)) d =
     (if d \<in> set days then paths_at (fst acc) d @ [l] else paths_at (fst acc) d)"
proof (induction days arbitrary: acc)
  case Nil
  show ?case by simp
next
  case (Cons day days)
  obtain paths stars where acc: "acc = (paths, stars)" by (cases acc)
  from Cons.prems have "distinct days" and "day \<notin> set days" by auto
  then show ?case
    by (auto simp: acc Let_def Cons.IH paths_at_update)
qed

lemma fold_days_distinct:
  "distinct (map fst (snd acc)) \<Longrightarrow>
   distinct (map fst (snd (fold_days self sc sol l days acc)))"
proof (induction days arbitrary: acc)
  case Nil
  then show ?case by simp
next
  case (Cons day days)
  obtain paths stars where acc: "acc = (paths, stars)" by (cases acc)
  from Cons.prems show ?case
    by (simp add: acc Let_def Cons.IH distinct_update)
qed

lemma compose_iter_skip: "\<not> has_year w y \<Longrightarrow> compose_iter self w (l, y) st = Inr st"
  by (simp add: compose_iter_def)

lemma compose_iter_fail:
  "has_year w y \<Longrightarrow> snapshot_for self w st y = Inl e \<Longrightarrow> compose_iter self w (l, y) st = Inl e"
  by (simp add: compose_iter_def)

lemma compose_iter_step:
  assumes "has_year w y" and "snapshot_for self w st y = Inr sc"
  shows "compose_iter self w (l, y) st =
     Inr \<lparr>solve_data = (solve_data st)(y \<mapsto>
            \<lparr>day_to_scores = sc,
             day_to_paths = fst (fold_days self sc (solution w l y) l (days_ran w l y)
               ((case solve_data st y of None \<Rightarrow> [] | Some yd \<Rightarrow> day_to_paths yd),
                (case solve_data st y of None \<Rightarrow> [] | Some yd \<Rightarrow> day_to_stars yd))),
             day_to_stars = snd (fold_days self sc (solution w l y) l (days_ran w l y)
               ((case solve_data st y of None \<Rightarrow> [] | Some yd \<Rightarrow> day_to_paths yd),
                (case solve_data st y of None \<Rightarrow> [] | Some yd \<Rightarrow> day_to_stars yd)))\<rparr>),
          fetches = (if is_leaderboard_needed self then fetches st @ [y] else fetches st)\<rparr>"
  using assms by (simp add: compose_iter_def Let_def)

lemma iter_cases:
  assumes "compose_iter self w (l, y) st = Inr st'"
  obtains (skip) "\<not> has_year w y" and "st' = st"
  | (step) sc where "has_year w y" and "snapshot_for self w st y = Inr sc"
proof (cases "has_year w y")
  case False
  with assms have "st' = st" by (simp add: compose_iter_skip)
  with False show ?thesis by (rule skip)
next
  case True
  show ?thesis
  proof (cases "snapshot_for self w st y")
    case (Inl e)
    with True assms show ?thesis by (simp add: compose_iter_fail)
  next
    case (Inr sc)
    with True show ?thesis by (rule step)
  qed
qed

lemma iter_stars:
  assumes "compose_iter self w (l, y) st = Inr st'" and "has_year w y"
    and "snapshot_for self w st y = Inr sc"
  shows "stars_of st' y' d =
     (if y' = y \<and> lang_ran w l (y, d) \<and> 1 \<le> d \<and> d \<le> 25
      then Some (day25 d (decided self w sc l y d)) else stars_of st y' d)"
proof -
  from assms(1) compose_iter_step [OF assms(2,3), of l] have
    "st' = \<lparr>solve_data = (solve_data st)(y \<mapsto>
            \<lparr>day_to_scores = sc,
             day_to_paths = fst (fold_days self sc (solution w l y) l (days_ran w l y)
               ((case solve_data st y of None \<Rightarrow> [] | Some yd \<Rightarrow> day_to_paths yd),
                (case solve_data st y of None \<Rightarrow> [] | Some yd \<Rightarrow> day_to_stars yd))),
             day_to_stars = snd (fold_days self sc (solution w l y) l (days_ran w l y)
               ((case solve_data st y of None \<Rightarrow> [] | Some yd \<Rightarrow> day_to_paths yd),
                (case solve_data st y of None \<Rightarrow> [] | Some yd \<Rightarrow> day_to_stars yd)))\<rparr>),
          fetches = (if is_leaderboard_needed self then fetches st @ [y] else fetches st)\<rparr>"
    by simp
  then show ?thesis
    by (auto simp: stars_of_def fold_days_stars in_days_ran decided_def split: option.splits)
qed

lemma paths_of_alt:
  "paths_of st y d =
     paths_at (case solve_data st y of None \<Rightarrow> [] | Some yd \<Rightarrow> day_to_paths yd) d"
  by (simp add: paths_of_def paths_at_def split: option.splits)

lemma iter_paths:
  assumes "compose_iter self w (l, y) st = Inr st'" and "has_year w y"
    and "snapshot_for self w st y = Inr sc"
  shows "paths_of st' y' d =
     (if y' = y \<and> lang_ran w l (y, d) \<and> 1 \<le> d \<and> d \<le> 25
      then paths_of st y' d @ [l] else paths_of st y' d)"
proof (cases "y' = y")
  case True
  let ?old = "((case solve_data st y of None \<Rightarrow> [] | Some yd \<Rightarrow> day_to_paths yd),
               (case solve_data st y of None \<Rightarrow> [] | Some yd \<Rightarrow> day_to_stars yd))"
  from assms(1) compose_iter_step [OF assms(2,3), of l] have
    "paths_of st' y d =
       paths_at (fst (fold_days self sc (solution w l y) l (days_ran w l y) ?old)) d"
    by (auto simp: paths_of_def)
  also have "\<dots> = (if d \<in> set (days_ran w l y) then paths_at (fst ?old) d @ [l]
                     else paths_at (fst ?old) d)"
    by (rule fold_days_paths) (rule distinct_days_ran)
  also have "paths_at (fst ?old) d = paths_of st y d"
    by (simp add: paths_of_alt)
  finally show ?thesis using True by (simp add: in_days_ran)
next
  case False
  with assms(1) compose_iter_step [OF assms(2,3), of l] show ?thesis
    by (auto simp: paths_of_def)
qed

lemma iter_scores:
  assumes "compose_iter self w (l, y) st = Inr st'" and "has_year w y"
    and "snapshot_for self w st y = Inr sc"
  shows "scores_of st' y d = sc d"
  using assms(1) compose_iter_step [OF assms(2,3), of l]
  by (auto simp: scores_of_def)

lemma iter_fetches:
  assumes "compose_iter self w (l, y) st = Inr st'"
  shows "fetches st' =
     fetches st @ (if is_leaderboard_needed self \<and> has_year w y then [y] else [])"
  using assms
proof (cases rule: iter_cases)
  case skip
  then show ?thesis by simp
next
  case (step sc)
  with assms compose_iter_step [OF step, of l] show ?thesis by auto
qed

lemma iter_snapshot:
  assumes "compose_iter self w (l, y) st = Inr st'"
  shows "snapshot_for self w st' y' = snapshot_for self w st y'"
  using assms
proof (cases rule: iter_cases)
  case skip
  then show ?thesis by simp
next
  case (step sc)
  show ?thesis
  proof (cases "is_leaderboard_needed self")
    case True
    then show ?thesis by (simp add: snapshot_for_def)
  next
    case False
    with step have sc: "sc = (case solve_data st y of None \<Rightarrow> Map.empty | Some yd \<Rightarrow> day_to_scores yd)"
      by (simp add: snapshot_for_def)
    from assms compose_iter_step [OF step, of l] False sc show ?thesis
      by (auto simp: snapshot_for_def)
  qed
qed

lemma iter_distinct:
  assumes "compose_iter self w (l, y) st = Inr st'"
    and "\<And>y yd. solve_data st y = Some yd \<Longrightarrow> distinct (map fst (day_to_stars yd))"
    and "solve_data st' y' = Some yd'"
  shows "distinct (map fst (day_to_stars yd'))"
  using assms(1)
proof (cases rule: iter_cases)
  case skip
  with assms(2,3) show ?thesis by simp
next
  case (step sc)
  have d0: "distinct (map fst (case solve_data st y of None \<Rightarrow> [] | Some yd \<Rightarrow> day_to_stars yd))"
    using assms(2) by (auto split: option.splits)
  show ?thesis
  proof (cases "y' = y")
    case True
    with assms(1,3) compose_iter_step [OF step, of l] have
      "day_to_stars yd' = snd (fold_days self sc (solution w l y) l (days_ran w l y)
               ((case solve_data st y of None \<Rightarrow> [] | Some yd \<Rightarrow> day_to_paths yd),
                (case solve_data st y of None \<Rightarrow> [] | Some yd \<Rightarrow> day_to_stars yd)))"
      by auto
    with d0 show ?thesis by (simp add: fold_days_distinct)
  next
    case False
    with assms(1,3) compose_iter_step [OF step, of l] have "solve_data st y' = Some yd'"
      by auto
    then show ?thesis by (rule assms(2))
  qed
qed

section \<open>The composition: the loop over the pairs\<close>

lemma iter_other:
  assumes "compose_iter self w (l, y) st = Inr st'" and "y' \<noteq> y"
  shows "solve_data st' y' = solve_data st y'"
  using assms(1)
proof (cases rule: iter_cases)
  case skip
  then show ?thesis by simp
next
  case (step sc)
  with assms compose_iter_step [OF step, of l] show ?thesis by auto
qed

lemma compose_loop_append:
  "compose_loop self w (ps @ qs) st =
     (case compose_loop self w ps st of Inl e \<Rightarrow> Inl e | Inr st1 \<Rightarrow> compose_loop self w qs st1)"
  by (induction ps arbitrary: st) (auto split: sum.splits)

lemma compose_loop_snoc:
  assumes "compose_loop self w (ps @ [p]) st = Inr st'"
  obtains st1 where "compose_loop self w ps st = Inr st1" and "compose_iter self w p st1 = Inr st'"
  using assms by (auto simp: compose_loop_append split: sum.splits)

lemma loop_snapshot:
  "compose_loop self w ps st = Inr st' \<Longrightarrow> snapshot_for self w st' y = snapshot_for self w st y"
proof (induction ps arbitrary: st)
  case Nil
  then show ?case by simp
next
  case (Cons p ps)
  obtain l0 y0 where p: "p = (l0, y0)" by (cases p)
  from Cons.prems obtain st1 where
    a: "compose_iter self w (l0, y0) st = Inr st1" and b: "compose_loop self w ps st1 = Inr st'"
    by (auto simp: p split: sum.splits)
  from Cons.IH [OF b] iter_snapshot [OF a] show ?case by simp
qed

lemma loop_ok:
  "compose_loop self w ps st = Inr st' \<Longrightarrow> (l, y) \<in> set ps \<Longrightarrow> has_year w y \<Longrightarrow>
   \<exists>sc. snapshot_for self w st y = Inr sc"
proof (induction ps arbitrary: st)
  case Nil
  then show ?case by simp
next
  case (Cons p ps)
  obtain l0 y0 where p: "p = (l0, y0)" by (cases p)
  from Cons.prems(1) obtain st1 where
    a: "compose_iter self w (l0, y0) st = Inr st1" and b: "compose_loop self w ps st1 = Inr st'"
    by (auto simp: p split: sum.splits)
  show ?case
  proof (cases "(l, y) = p")
    case True
    with p have "y0 = y" by simp
    with a Cons.prems(3) show ?thesis
      by (cases rule: iter_cases) auto
  next
    case False
    with Cons.prems(2) have "(l, y) \<in> set ps" by auto
    from Cons.IH [OF b this Cons.prems(3)] iter_snapshot [OF a] show ?thesis by simp
  qed
qed

lemma loop_fails:
  assumes "(l, y) \<in> set ps" and "has_year w y" and "snapshot_for self w st y = Inl e"
  shows "\<exists>e'. compose_loop self w ps st = Inl e'"
proof (cases "compose_loop self w ps st")
  case (Inl e')
  then show ?thesis by simp
next
  case (Inr st')
  from loop_ok [OF Inr assms(1,2)] assms(3) show ?thesis by simp
qed

lemma contributors_Nil: "contributors w y d [] = []"
  by (simp add: contributors_def)

lemma contributors_snoc:
  "contributors w y d (ps @ [(l0, y0)]) =
     contributors w y d ps @
     (if y0 = y \<and> lang_ran w l0 (y, d) \<and> 1 \<le> d \<and> d \<le> 25 then [l0] else [])"
  by (simp add: contributors_def)

lemma contributors_append:
  "contributors w y d (ps @ qs) = contributors w y d ps @ contributors w y d qs"
  by (simp add: contributors_def)

lemma loop_stars_same:
  "compose_loop self w ps st = Inr st' \<Longrightarrow> contributors w y d ps = [] \<Longrightarrow>
   stars_of st' y d = stars_of st y d"
proof (induction ps arbitrary: st' rule: rev_induct)
  case Nil
  then show ?case by simp
next
  case (snoc p ps)
  obtain l0 y0 where p: "p = (l0, y0)" by (cases p)
  from snoc.prems(1) obtain st1 where
    a: "compose_loop self w ps st = Inr st1" and b: "compose_iter self w (l0, y0) st1 = Inr st'"
    unfolding p by (rule compose_loop_snoc)
  from snoc.prems(2) have c: "contributors w y d ps = []"
    and n: "\<not> (y0 = y \<and> lang_ran w l0 (y, d) \<and> 1 \<le> d \<and> d \<le> 25)"
    by (auto simp: p contributors_snoc split: if_splits)
  from snoc.IH [OF a c] have ih: "stars_of st1 y d = stars_of st y d" .
  from b have "stars_of st' y d = stars_of st1 y d"
  proof (cases rule: iter_cases)
    case skip
    then show ?thesis by simp
  next
    case (step sc)
    from iter_stars [OF b step, of y d] n show ?thesis by auto
  qed
  with ih show ?case by simp
qed

lemma loop_stars:
  assumes "compose_loop self w ps st = Inr st'" and "has_year w y"
    and "snapshot_for self w st y = Inr sc" and "contributors w y d ps \<noteq> []"
  shows "stars_of st' y d =
           Some (day25 d (decided self w sc (last (contributors w y d ps)) y d))"
  using assms(1,4)
proof (induction ps arbitrary: st' rule: rev_induct)
  case Nil
  then show ?case by (simp add: contributors_Nil)
next
  case (snoc p ps)
  obtain l0 y0 where p: "p = (l0, y0)" by (cases p)
  from snoc.prems(1) obtain st1 where
    a: "compose_loop self w ps st = Inr st1" and b: "compose_iter self w (l0, y0) st1 = Inr st'"
    unfolding p by (rule compose_loop_snoc)
  have snap1: "snapshot_for self w st1 y = Inr sc"
    using loop_snapshot [OF a] assms(3) by simp
  show ?case
  proof (cases "y0 = y \<and> lang_ran w l0 (y, d) \<and> 1 \<le> d \<and> d \<le> 25")
    case True
    then have y0: "y0 = y" by simp
    from b assms(2) snap1 have "stars_of st' y d = Some (day25 d (decided self w sc l0 y d))"
      using iter_stars [of self w l0 y st1 st' sc y d] True y0 by simp
    with True show ?thesis by (simp add: p contributors_snoc)
  next
    case False
    then have c: "contributors w y d (ps @ [p]) = contributors w y d ps"
      by (auto simp: p contributors_snoc)
    with snoc.prems(2) have ne: "contributors w y d ps \<noteq> []" by simp
    from snoc.IH [OF a ne] have ih:
      "stars_of st1 y d = Some (day25 d (decided self w sc (last (contributors w y d ps)) y d))" .
    from b have "stars_of st' y d = stars_of st1 y d"
    proof (cases rule: iter_cases)
      case skip
      then show ?thesis by simp
    next
      case (step sc0)
      from iter_stars [OF b step, of y d] False show ?thesis by auto
    qed
    with ih c show ?thesis by simp
  qed
qed

lemma loop_paths:
  "compose_loop self w ps st = Inr st' \<Longrightarrow> has_year w y \<Longrightarrow>
   paths_of st' y d = paths_of st y d @ contributors w y d ps"
proof (induction ps arbitrary: st' rule: rev_induct)
  case Nil
  then show ?case by (simp add: contributors_Nil)
next
  case (snoc p ps)
  obtain l0 y0 where p: "p = (l0, y0)" by (cases p)
  from snoc.prems(1) obtain st1 where
    a: "compose_loop self w ps st = Inr st1" and b: "compose_iter self w (l0, y0) st1 = Inr st'"
    unfolding p by (rule compose_loop_snoc)
  from snoc.IH [OF a snoc.prems(2)]
  have ih: "paths_of st1 y d = paths_of st y d @ contributors w y d ps" .
  from b show ?case
  proof (cases rule: iter_cases)
    case skip
    with snoc.prems(2) have "y0 \<noteq> y" by auto
    with skip ih show ?thesis by (simp add: p contributors_snoc)
  next
    case (step sc0)
    show ?thesis
    proof (cases "y0 = y")
      case True
      from iter_paths [OF b step, of y d] ih True show ?thesis
        by (simp add: p contributors_snoc)
    next
      case False
      from iter_paths [OF b step, of y d] ih False show ?thesis
        by (simp add: p contributors_snoc)
    qed
  qed
qed

lemma loop_scores:
  "compose_loop self w ps st = Inr st' \<Longrightarrow> (l, y) \<in> set ps \<Longrightarrow> has_year w y \<Longrightarrow>
   snapshot_for self w st y = Inr sc \<Longrightarrow> scores_of st' y d = sc d"
proof (induction ps arbitrary: st' rule: rev_induct)
  case Nil
  then show ?case by simp
next
  case (snoc p ps)
  obtain l0 y0 where p: "p = (l0, y0)" by (cases p)
  from snoc.prems(1) obtain st1 where
    a: "compose_loop self w ps st = Inr st1" and b: "compose_iter self w (l0, y0) st1 = Inr st'"
    unfolding p by (rule compose_loop_snoc)
  have snap1: "snapshot_for self w st1 y = Inr sc"
    using loop_snapshot [OF a] snoc.prems(4) by simp
  show ?case
  proof (cases "y0 = y")
    case True
    with b snoc.prems(3) snap1 show ?thesis
      using iter_scores [of self w l0 y st1 st' sc d] by simp
  next
    case False
    with snoc.prems(2) have "(l, y) \<in> set ps" by (auto simp: p)
    from snoc.IH [OF a this snoc.prems(3,4)] have "scores_of st1 y d = sc d" .
    moreover from iter_other [OF b, of y] False have "scores_of st' y d = scores_of st1 y d"
      by (simp add: scores_of_def)
    ultimately show ?thesis by simp
  qed
qed

lemma loop_fetches:
  "compose_loop self w ps st = Inr st' \<Longrightarrow>
   fetches st' =
     fetches st @ (if is_leaderboard_needed self
                   then map snd (filter (\<lambda>p. has_year w (snd p)) ps) else [])"
proof (induction ps arbitrary: st' rule: rev_induct)
  case Nil
  then show ?case by simp
next
  case (snoc p ps)
  obtain l0 y0 where p: "p = (l0, y0)" by (cases p)
  from snoc.prems(1) obtain st1 where
    a: "compose_loop self w ps st = Inr st1" and b: "compose_iter self w (l0, y0) st1 = Inr st'"
    unfolding p by (rule compose_loop_snoc)
  from snoc.IH [OF a] iter_fetches [OF b] show ?case
    by (simp add: p)
qed

lemma loop_distinct:
  "compose_loop self w ps st = Inr st' \<Longrightarrow>
   \<forall>y yd. solve_data st y = Some yd \<longrightarrow> distinct (map fst (day_to_stars yd)) \<Longrightarrow>
   \<forall>y yd. solve_data st' y = Some yd \<longrightarrow> distinct (map fst (day_to_stars yd))"
proof (induction ps arbitrary: st' rule: rev_induct)
  case Nil
  then show ?case by simp
next
  case (snoc p ps)
  obtain l0 y0 where p: "p = (l0, y0)" by (cases p)
  from snoc.prems(1) obtain st1 where
    a: "compose_loop self w ps st = Inr st1" and b: "compose_iter self w (l0, y0) st1 = Inr st'"
    unfolding p by (rule compose_loop_snoc)
  from snoc.IH [OF a snoc.prems(2)]
  have inv: "\<forall>y yd. solve_data st1 y = Some yd \<longrightarrow> distinct (map fst (day_to_stars yd))" .
  show ?case
  proof (intro allI impI)
    fix y' yd'
    assume c: "solve_data st' y' = Some yd'"
    show "distinct (map fst (day_to_stars yd'))"
    proof (rule iter_distinct [OF b _ c])
      fix y yd
      assume "solve_data st1 y = Some yd"
      with inv show "distinct (map fst (day_to_stars yd))" by blast
    qed
  qed
qed

lemma loop_present:
  "compose_loop self w ps st = Inr st' \<Longrightarrow> (l, y) \<in> set ps \<Longrightarrow> has_year w y \<Longrightarrow>
   solve_data st' y \<noteq> None"
proof (induction ps arbitrary: st' rule: rev_induct)
  case Nil
  then show ?case by simp
next
  case (snoc p ps)
  obtain l0 y0 where p: "p = (l0, y0)" by (cases p)
  from snoc.prems(1) obtain st1 where
    a: "compose_loop self w ps st = Inr st1" and b: "compose_iter self w (l0, y0) st1 = Inr st'"
    unfolding p by (rule compose_loop_snoc)
  show ?case
  proof (cases "y0 = y")
    case True
    from b show ?thesis
    proof (cases rule: iter_cases)
      case skip
      with True snoc.prems(3) show ?thesis by simp
    next
      case (step sc)
      with b compose_iter_step [OF step, of l0] True show ?thesis by auto
    qed
  next
    case False
    with snoc.prems(2) have "(l, y) \<in> set ps" by (auto simp: p)
    from snoc.IH [OF a this snoc.prems(3)] iter_other [OF b, of y] False show ?thesis by simp
  qed
qed

subsection \<open>The pairs of the product\<close>

lemma contributors_row:
  "contributors w y d (map (Pair l) ys) =
     (if lang_ran w l (y, d) \<and> 1 \<le> d \<and> d \<le> 25 then replicate (count_list ys y) l else [])"
  by (induction ys) (auto simp: contributors_def)

lemma contributors_product:
  "contributors w y d (List.product ls ys) =
     concat (map (\<lambda>l. replicate (count_list ys y) l)
       (if 1 \<le> d \<and> d \<le> 25 then attempted w y d ls else []))"
  by (induction ls) (auto simp: contributors_append contributors_row attempted_def contributors_Nil)

lemma concat_replicate_Nil:
  "0 < n \<Longrightarrow> concat (map (\<lambda>l. replicate n l) xs) = [] \<longleftrightarrow> xs = []"
  by (cases xs) auto

lemma last_concat_replicate:
  "0 < n \<Longrightarrow> xs \<noteq> [] \<Longrightarrow> last (concat (map (\<lambda>l. replicate n l) xs)) = last xs"
  by (induction xs rule: rev_induct) auto

lemma mset_concat_map:
  "mset xs = mset ys \<Longrightarrow> mset (concat (map f xs)) = mset (concat (map f ys))"
proof -
  assume a: "mset xs = mset ys"
  have "\<And>zs. mset (concat (map f zs)) = sum_mset (image_mset (\<lambda>z. mset (f z)) (mset zs))"
    by (induct_tac zs) auto
  with a show ?thesis by simp
qed

lemma count_pos: "y \<in> set ys \<Longrightarrow> 0 < count_list ys y"
  by (induction ys) auto

section \<open>The composed state\<close>

lemma compose_init: "compose_solve_data self w ls ys = compose_loop self w (List.product ls ys) init"
  by (simp add: compose_solve_data_def init_def)

lemma stars_of_init: "stars_of init y d = None"
  by (simp add: stars_of_def init_def)

lemma paths_of_init: "paths_of init y d = []"
  by (simp add: paths_of_def init_def)

lemma product_append:
  "List.product (xs @ zs) ys = List.product xs ys @ List.product zs ys"
  by (induction xs) auto

lemma compose_snapshot:
  assumes "compose_solve_data self w languages years = Inr st" and "has_year w y"
    and "y \<in> set years" and "languages \<noteq> []"
  obtains sc where "snapshot_for self w init y = Inr sc" and "\<And>d. scores_of st y d = sc d"
proof -
  from assms(3,4) have m: "(hd languages, y) \<in> set (List.product languages years)" by simp
  from assms(1) have l: "compose_loop self w (List.product languages years) init = Inr st"
    by (simp add: compose_init)
  from loop_ok [OF l m assms(2)] obtain sc where sc: "snapshot_for self w init y = Inr sc"
    by blast
  have "\<And>d. scores_of st y d = sc d"
    by (rule loop_scores [OF l m assms(2) sc])
  with sc show ?thesis by (rule that)
qed

lemma compose_contributors_Nil:
  assumes "y \<in> set years" and "1 \<le> d" and "d \<le> 25"
  shows "(contributors w y d (List.product languages years) = []) =
           (attempted w y d languages = [])"
  using assms count_pos [OF assms(1)]
  by (simp add: contributors_product concat_replicate_Nil)

lemma compose_contributors_last:
  assumes "y \<in> set years" and "1 \<le> d" and "d \<le> 25" and "attempted w y d languages \<noteq> []"
  shows "last (contributors w y d (List.product languages years)) =
           last (attempted w y d languages)"
  using assms count_pos [OF assms(1)]
  by (simp add: contributors_product last_concat_replicate)

lemma compose_stars_last:
  assumes "compose_solve_data self w languages years = Inr st" and "has_year w y"
    and "y \<in> set years" and "1 \<le> d" and "d \<le> 25" and "attempted w y d languages \<noteq> []"
  shows "stars_of st y d =
     Some (day25 d (get_stars self (scores_of st y d)
                      (solution w (last (attempted w y d languages)) y d)))"
proof -
  from assms(6) have ne: "languages \<noteq> []" by (auto simp: attempted_def)
  from compose_snapshot [OF assms(1,2,3) ne] obtain sc where
    sc: "snapshot_for self w init y = Inr sc" and eq: "\<And>d. scores_of st y d = sc d"
    by blast
  from assms(1) have l: "compose_loop self w (List.product languages years) init = Inr st"
    by (simp add: compose_init)
  have c: "contributors w y d (List.product languages years) \<noteq> []"
    using compose_contributors_Nil [OF assms(3,4,5), of w languages] assms(6) by simp
  from loop_stars [OF l assms(2) sc c] compose_contributors_last [OF assms(3,4,5,6)] eq
  show ?thesis by (simp add: decided_def)
qed

lemma compose_stars_none:
  assumes "compose_solve_data self w languages years = Inr st"
    and "attempted w y d languages = [] \<or> \<not> (1 \<le> d \<and> d \<le> 25)"
  shows "stars_of st y d = None"
proof -
  from assms(1) have l: "compose_loop self w (List.product languages years) init = Inr st"
    by (simp add: compose_init)
  from assms(2) have "contributors w y d (List.product languages years) = []"
    by (auto simp: contributors_product)
  from loop_stars_same [OF l this] show ?thesis by (simp add: stars_of_init)
qed

text \<open>
  Claim C10. In a composed state, the count stored for a day that some language
  attempted is the decision for the last such language, except that a decision of
  exactly 1 on day 25 is stored as 2; every other decision, on day 25 or another day,
  is stored unchanged.
\<close>

theorem day25_bonus:
  assumes "compose_solve_data self w languages years = Inr st" and "has_year w year"
    and "year \<in> set years" and "1 \<le> day" and "day \<le> 25"
    and "attempted w year day languages \<noteq> []"
    and "stars = get_stars self (scores_of st year day)
                   (solution w (last (attempted w year day languages)) year day)"
  shows "stars_of st year day = Some (if day = 25 \<and> stars = 1 then 2 else stars)"
proof -
  have "stars_of st year day = Some (day25 day stars)"
    unfolding assms(7) by (rule compose_stars_last [OF assms(1-6)])
  then show ?thesis by (simp only: day25_def)
qed

lemma rust_2020:
  "fetches_in (compose_solve_data cfg_files w_files [''rust''] [2020]) = Inr []"
  by code_simp

text \<open>
  The theorem at rust in 2020: one file on day 25 is stored as 2, one file on day 1 as 1.
\<close>

theorem day25_bonus_witness:
  "\<exists>st. compose_solve_data cfg_files w_files [''rust''] [2020] = Inr st \<and>
        has_year w_files 2020 \<and> attempted w_files 2020 25 [''rust''] \<noteq> [] \<and>
        get_stars cfg_files (scores_of st 2020 25) (solution w_files ''rust'' 2020 25) = 1 \<and>
        stars_of st 2020 25 = Some 2 \<and> stars_of st 2020 1 = Some 1"
proof -
  from rust_2020 obtain st where
    st: "compose_solve_data cfg_files w_files [''rust''] [2020] = Inr st"
    by (auto simp: fetches_in_def split: sum.splits)
  have a25: "attempted w_files 2020 25 [''rust''] = [''rust'']"
    by (simp add: attempted_def w_files_def)
  have a1: "attempted w_files 2020 1 [''rust''] = [''rust'']"
    by (simp add: attempted_def w_files_def)
  have h: "has_year w_files 2020" by (simp add: w_files_def)
  have g: "\<And>sc d. get_stars cfg_files sc (solution w_files ''rust'' 2020 d) = 1"
    by (simp add: get_stars_def cfg_files_def w_files_def)
  from day25_bonus [OF st h, of 25 "1"] a25 g
  have "stars_of st 2020 25 = Some 2" by simp
  moreover from day25_bonus [OF st h, of 1 "1"] a1 g
  have "stars_of st 2020 1 = Some 1" by simp
  ultimately show ?thesis using st h a25 g by simp
qed

lemma attempted_snoc:
  "attempted w y d (ls @ [l]) = attempted w y d ls @ (if lang_ran w l (y, d) then [l] else [])"
  by (simp add: attempted_def)

text \<open>
  Claim C2, as the code has it. Folding in one more language \<open>l\<close> replaces the count of
  every day that \<open>l\<close> attempted by the decision for \<open>l\<close> alone (with the bonus of day 25),
  whatever was stored before, and leaves the count of the other days as it was. The
  stored count is the decision for the last language that attempted the day, not the
  maximum over the languages.
\<close>

theorem last_language_wins:
  assumes "compose_solve_data self w (languages @ [l]) years = Inr st'"
    and "has_year w year" and "year \<in> set years" and "1 \<le> day" and "day \<le> 25"
  shows "\<exists>st. compose_solve_data self w languages years = Inr st \<and>
           stars_of st' year day =
             (if lang_ran w l (year, day)
              then Some (day25 day (get_stars self (scores_of st' year day)
                                      (solution w l year day)))
              else stars_of st year day)"
proof -
  from assms(1) obtain st where
    st: "compose_solve_data self w languages years = Inr st"
    by (auto simp: compose_init product_append compose_loop_append split: sum.splits)
  have "stars_of st' year day =
          (if lang_ran w l (year, day)
           then Some (day25 day (get_stars self (scores_of st' year day) (solution w l year day)))
           else stars_of st year day)"
  proof (cases "lang_ran w l (year, day)")
    case True
    then have a: "attempted w year day (languages @ [l]) \<noteq> []"
      and b: "last (attempted w year day (languages @ [l])) = l"
      by (simp_all add: attempted_snoc)
    from compose_stars_last [OF assms(1-5) a] b True show ?thesis by simp
  next
    case False
    then have same: "attempted w year day (languages @ [l]) = attempted w year day languages"
      by (simp add: attempted_snoc)
    show ?thesis
    proof (cases "attempted w year day languages = []")
      case True
      with same have "attempted w year day (languages @ [l]) = []" by simp
      then have "stars_of st' year day = None"
        using compose_stars_none [OF assms(1), of year day] by simp
      moreover have "stars_of st year day = None"
        using compose_stars_none [OF st, of year day] True by simp
      ultimately show ?thesis using False by simp
    next
      case ne: False
      then have lne: "languages \<noteq> []" by (auto simp: attempted_def)
      from compose_snapshot [OF st assms(2,3) lne] obtain sc where
        sc: "snapshot_for self w init year = Inr sc" and eq: "\<And>d. scores_of st year d = sc d"
        by blast
      have lne': "languages @ [l] \<noteq> []" by simp
      from compose_snapshot [OF assms(1,2,3) lne'] obtain sc' where
        sc': "snapshot_for self w init year = Inr sc'" and eq': "\<And>d. scores_of st' year d = sc' d"
        by blast
      from sc sc' have "sc' = sc" by simp
      with eq eq' have e: "scores_of st' year day = scores_of st year day" by simp
      from ne same have ne': "attempted w year day (languages @ [l]) \<noteq> []" by simp
      from compose_stars_last [OF assms(1-5) ne'] compose_stars_last [OF st assms(2-5) ne]
      show ?thesis using False same e by simp
    qed
  qed
  with st show ?thesis by blast
qed

lemma python_rust_2020:
  "stars_in (compose_solve_data cfg_files w_files [''python'', ''rust''] [2020]) 2020 1 =
     Inr (Some 1)"
  by code_simp

text \<open>
  The theorem at python followed by rust: day 1, which rust attempted with one file, is
  stored as 1; day 3, which rust did not attempt, keeps the 2 of python.
\<close>

theorem last_language_wins_witness:
  "\<exists>st'. compose_solve_data cfg_files w_files ([''python''] @ [''rust'']) [2020] = Inr st' \<and>
         has_year w_files 2020 \<and> lang_ran w_files ''rust'' (2020, 1) \<and>
         stars_of st' 2020 1 = Some 1 \<and>
         \<not> lang_ran w_files ''rust'' (2020, 3) \<and> stars_of st' 2020 3 = Some 2"
proof -
  from python_rust_2020 obtain st' where
    st': "compose_solve_data cfg_files w_files ([''python''] @ [''rust'']) [2020] = Inr st'"
    by (auto simp: stars_in_def split: sum.splits)
  have h: "has_year w_files 2020" by (simp add: w_files_def)
  have r1: "lang_ran w_files ''rust'' (2020, 1)" by (simp add: w_files_def)
  have r3: "\<not> lang_ran w_files ''rust'' (2020, 3)" by (simp add: w_files_def)
  have g: "\<And>sc d. get_stars cfg_files sc (solution w_files ''rust'' 2020 d) = 1"
    by (simp add: get_stars_def cfg_files_def w_files_def)
  have p3: "stars_in (compose_solve_data cfg_files w_files [''python''] [2020]) 2020 3 =
              Inr (Some 2)"
    by code_simp
  from last_language_wins [OF st' h, of 1] r1 g
  have a: "stars_of st' 2020 1 = Some 1" by (simp add: day25_def)
  from last_language_wins [OF st' h, of 3] r3 p3
  have b: "stars_of st' 2020 3 = Some 2" by (auto simp: stars_in_def)
  from st' h r1 r3 a b show ?thesis by blast
qed

text \<open>
  Claim C2 as stated fails: python alone gives day 1 two stars; folding in rust, whose
  decision is 1, lowers the stored count to 1, below the maximum 2 of the decisions.
\<close>

theorem added_language_lowers_stars:
  "stars_in (compose_solve_data cfg_files w_files [''python''] [2020]) 2020 1 = Inr (Some 2) \<and>
   stars_in (compose_solve_data cfg_files w_files [''python'', ''rust''] [2020]) 2020 1 =
     Inr (Some 1) \<and>
   get_stars cfg_files None (solution w_files ''python'' 2020 1) = 2 \<and>
   get_stars cfg_files None (solution w_files ''rust'' 2020 1) = 1"
proof (intro conjI)
  show "stars_in (compose_solve_data cfg_files w_files [''python''] [2020]) 2020 1 = Inr (Some 2)"
    by code_simp
  show "stars_in (compose_solve_data cfg_files w_files [''python'', ''rust''] [2020]) 2020 1 =
     Inr (Some 1)"
    by code_simp
  show "get_stars cfg_files None (solution w_files ''python'' 2020 1) = 2"
    by (simp add: get_stars_def cfg_files_def w_files_def)
  show "get_stars cfg_files None (solution w_files ''rust'' 2020 1) = 1"
    by (simp add: get_stars_def cfg_files_def w_files_def)
qed

subsection \<open>Fetches\<close>

lemma count_row:
  "count_list (map snd (filter (\<lambda>p. has_year w (snd p)) (map (Pair l) ys))) y =
     (if has_year w y then count_list ys y else 0)"
  by (induction ys) auto

lemma count_product:
  "count_list (map snd (filter (\<lambda>p. has_year w (snd p)) (List.product ls ys))) y =
     (if has_year w y then length ls * count_list ys y else 0)"
  by (induction ls) (auto simp: count_row)

text \<open>
  Claim C4, as the code has it. When the leaderboard is needed, a run that succeeds
  has called \<open>parse_leaderboard\<close> for a year with local solutions once for every language
  and every occurrence of the year in \<open>years\<close>: the number of fetches of a year grows
  linearly with the number of languages.
\<close>

theorem fetch_per_language:
  assumes "compose_solve_data self w languages years = Inr st"
    and "is_leaderboard_needed self" and "has_year w year"
  shows "count_list (fetches st) year = length languages * count_list years year"
proof -
  from assms(1) have l: "compose_loop self w (List.product languages years) init = Inr st"
    by (simp add: compose_init)
  from loop_fetches [OF l] assms(2) have
    "fetches st = map snd (filter (\<lambda>p. has_year w (snd p)) (List.product languages years))"
    by (simp add: init_def)
  with assms(3) show ?thesis by (simp add: count_product)
qed

lemma board_2021:
  "fetches_in (compose_solve_data cfg_board w_board [''python'', ''rust''] [2021]) =
     Inr [2021, 2021]"
  by code_simp

text \<open>
  The theorem at two languages and the year 2021.
\<close>

theorem fetch_per_language_witness:
  "\<exists>st. compose_solve_data cfg_board w_board [''python'', ''rust''] [2021] = Inr st \<and>
        is_leaderboard_needed cfg_board \<and> has_year w_board 2021 \<and>
        count_list (fetches st) 2021 = 2"
proof -
  from board_2021 obtain st where
    st: "compose_solve_data cfg_board w_board [''python'', ''rust''] [2021] = Inr st"
    by (auto simp: fetches_in_def split: sum.splits)
  have n: "is_leaderboard_needed cfg_board"
    by (simp add: is_leaderboard_needed_def cfg_board_def)
  have h: "has_year w_board 2021" by (simp add: w_board_def)
  from fetch_per_language [OF st n h] st n h show ?thesis by auto
qed

text \<open>
  Claim C4 as stated fails: with two languages the document of 2021 is fetched and
  parsed twice in one run.
\<close>

theorem fetched_twice:
  "fetches_in (compose_solve_data cfg_board w_board [''python'', ''rust''] [2021]) =
     Inr [2021, 2021]"
  by code_simp

subsection \<open>Errors\<close>

text \<open>
  Claim C7, as the code has it. When the leaderboard is needed and the parse of one year
  with local solutions fails, the whole composition fails for every non-empty list of
  languages: no state is returned, for that year or for any other.
\<close>

theorem parse_error_aborts:
  assumes "language \<in> set languages" and "year \<in> set years" and "has_year w year"
    and "is_leaderboard_needed self"
    and "parse_leaderboard (get_leaderboard w) year (Some (runtime_of w))
           (what_to_show_on_right_side self = Runtime) = Inl e"
  shows "\<exists>e'. compose_solve_data self w languages years = Inl e'"
proof -
  from assms(1,2) have m: "(language, year) \<in> set (List.product languages years)" by simp
  from assms(4,5) have "snapshot_for self w init year = Inl e"
    by (simp add: snapshot_for_def)
  from loop_fails [OF m assms(3) this] show ?thesis by (simp add: compose_init)
qed

lemma board_2020:
  "record_in (parse_leaderboard (get_leaderboard w_board) 2020 (Some (runtime_of w_board))
     (what_to_show_on_right_side cfg_board = Runtime)) 1 = Inl NoLeaderboard"
  by code_simp

text \<open>
  The theorem at the years 2021 and 2020, where the document of 2020 is not a
  leaderboard.
\<close>

theorem parse_error_aborts_witness:
  "''python'' \<in> set [''python''] \<and> (2020::int) \<in> set [2021, 2020] \<and> has_year w_board 2020 \<and>
   is_leaderboard_needed cfg_board \<and>
   parse_leaderboard (get_leaderboard w_board) 2020 (Some (runtime_of w_board))
     (what_to_show_on_right_side cfg_board = Runtime) = Inl NoLeaderboard \<and>
   (\<exists>e'. compose_solve_data cfg_board w_board [''python''] [2021, 2020] = Inl e')"
proof -
  have p: "parse_leaderboard (get_leaderboard w_board) 2020 (Some (runtime_of w_board))
     (what_to_show_on_right_side cfg_board = Runtime) = Inl NoLeaderboard"
    using board_2020 by (simp add: record_in_def split: sum.splits)
  have n: "is_leaderboard_needed cfg_board"
    by (simp add: is_leaderboard_needed_def cfg_board_def)
  have h: "has_year w_board 2020" by (simp add: w_board_def)
  have a: "''python'' \<in> set [''python'']" by simp
  have b: "(2020::int) \<in> set [2021, 2020]" by simp
  from parse_error_aborts [OF a b h n p] p n h show ?thesis by simp
qed

text \<open>
  Claim C7 as stated fails: 2021 alone composes to two stars on day 1, and composing
  2021 and then 2020 returns the failed assertion of 2020 instead of a state, so the
  state of 2021 is not part of the result.
\<close>

theorem other_year_lost:
  "stars_in (compose_solve_data cfg_board w_board [''python''] [2021]) 2021 1 = Inr (Some 2) \<and>
   stars_in (compose_solve_data cfg_board w_board [''python''] [2021, 2020]) 2021 1 =
     Inl NoLeaderboard"
proof
  show "stars_in (compose_solve_data cfg_board w_board [''python''] [2021]) 2021 1 = Inr (Some 2)"
    by code_simp
  show "stars_in (compose_solve_data cfg_board w_board [''python''] [2021, 2020]) 2021 1 =
     Inl NoLeaderboard"
    by code_simp
qed

text \<open>
  Claim C9 at a failing input. Python ran days 1 and 3 of 2020, so the composed state
  has no star entry for day 2 while day 3 has two stars; \<open>handle_year\<close> on that state
  raises \<open>KeyError\<close> at day 2.
\<close>

theorem missing_day_raises:
  "stars_in (compose_solve_data cfg_files w_files [''python''] [2020]) 2020 2 = Inr None \<and>
   stars_in (compose_solve_data cfg_files w_files [''python''] [2020]) 2020 3 = Inr (Some 2) \<and>
   year_in cfg_files (compose_solve_data cfg_files w_files [''python''] [2020]) 2020 =
     Inl KeyError"
proof (intro conjI)
  show "stars_in (compose_solve_data cfg_files w_files [''python''] [2020]) 2020 2 = Inr None"
    by code_simp
  show "stars_in (compose_solve_data cfg_files w_files [''python''] [2020]) 2020 3 = Inr (Some 2)"
    by code_simp
  show "year_in cfg_files (compose_solve_data cfg_files w_files [''python''] [2020]) 2020 =
     Inl KeyError"
    by code_simp
qed

lemma loop_succeeds:
  "\<forall>p \<in> set ps. has_year w (snd p) \<longrightarrow> (\<exists>sc. snapshot_for self w st (snd p) = Inr sc) \<Longrightarrow>
   \<exists>st'. compose_loop self w ps st = Inr st'"
proof (induction ps arbitrary: st)
  case Nil
  show ?case by simp
next
  case (Cons p ps)
  obtain l0 y0 where p: "p = (l0, y0)" by (cases p)
  have "\<exists>st1. compose_iter self w (l0, y0) st = Inr st1"
  proof (cases "has_year w y0")
    case False
    then show ?thesis by (simp add: compose_iter_skip)
  next
    case True
    with Cons.prems obtain sc where "snapshot_for self w st y0 = Inr sc"
      by (auto simp: p)
    from compose_iter_step [OF True this, of l0] show ?thesis by blast
  qed
  then obtain st1 where a: "compose_iter self w (l0, y0) st = Inr st1" by blast
  have "\<forall>q \<in> set ps. has_year w (snd q) \<longrightarrow> (\<exists>sc. snapshot_for self w st1 (snd q) = Inr sc)"
    using Cons.prems iter_snapshot [OF a] by simp
  from Cons.IH [OF this] a show ?case by (simp add: p)
qed

lemma sum_alist:
  assumes "distinct (map fst xs)" and "distinct (map fst ys)" and "map_of xs = map_of ys"
  shows "sum_list (map snd xs) = sum_list (map snd (ys :: ('k \<times> nat) list))"
proof -
  from assms have s: "set xs = set ys" by (simp add: map_of_inject_set)
  from assms(1,2) have "distinct xs" and "distinct ys" by (auto simp: distinct_map)
  with s have m: "mset xs = mset ys" by (simp add: set_eq_iff_mset_eq_distinct)
  have "\<And>zs :: ('k \<times> nat) list. sum_list (map snd zs) = sum_mset (image_mset snd (mset zs))"
    by (induct_tac zs) auto
  with m show ?thesis by simp
qed

lemma attempted_perm:
  "mset ls' = mset ls \<Longrightarrow> mset (attempted w y d ls') = mset (attempted w y d ls)"
  by (simp add: attempted_def)

lemma last_attempted:
  "attempted w y d ls \<noteq> [] \<Longrightarrow>
   last (attempted w y d ls) \<in> set ls \<and> lang_ran w (last (attempted w y d ls)) (y, d)"
proof -
  assume a: "attempted w y d ls \<noteq> []"
  then have "last (attempted w y d ls) \<in> set (attempted w y d ls)" by (rule last_in_set)
  then show ?thesis by (simp add: attempted_def)
qed

text \<open>
  Claim C3, as the code has it. If the composition succeeds for a list of languages, it
  succeeds for every permutation of the list, and for every year of \<open>years\<close> with local
  solutions each day has the same languages in its list (as a multiset). The star
  counts of the year are the same in both orders, and so is the total, when for every
  day all the languages that attempted it get the same decision; this is so under
  the rule \<open>on_leaderboard\<close>, where the decision does not depend on the language.
\<close>

theorem permuted_languages:
  assumes "compose_solve_data self w languages years = Inr st"
    and "mset languages' = mset languages" and "has_year w year" and "year \<in> set years"
  shows "\<exists>st'. compose_solve_data self w languages' years = Inr st' \<and>
           (\<forall>day. mset (paths_of st' year day) = mset (paths_of st year day)) \<and>
           ((\<forall>day l l'. l \<in> set languages \<and> l' \<in> set languages \<and>
                 lang_ran w l (year, day) \<and> lang_ran w l' (year, day) \<longrightarrow>
                 get_stars self (scores_of st year day) (solution w l year day) =
                 get_stars self (scores_of st year day) (solution w l' year day)) \<longrightarrow>
            (\<forall>day. stars_of st' year day = stars_of st year day) \<and>
            total_stars st' year = total_stars st year)"
proof -
  from assms(2) have seteq: "set languages' = set languages" by (rule mset_eq_setD)
  from assms(1) have l: "compose_loop self w (List.product languages years) init = Inr st"
    by (simp add: compose_init)
  have "\<forall>p \<in> set (List.product languages' years).
          has_year w (snd p) \<longrightarrow> (\<exists>sc. snapshot_for self w init (snd p) = Inr sc)"
  proof (intro ballI impI)
    fix p
    assume p: "p \<in> set (List.product languages' years)" and h: "has_year w (snd p)"
    from p seteq have "(fst p, snd p) \<in> set (List.product languages years)" by auto
    from loop_ok [OF l this h] show "\<exists>sc. snapshot_for self w init (snd p) = Inr sc" .
  qed
  from loop_succeeds [OF this] obtain st' where
    l': "compose_loop self w (List.product languages' years) init = Inr st'" by blast
  then have st': "compose_solve_data self w languages' years = Inr st'"
    by (simp add: compose_init)
  have paths: "mset (paths_of st' year day) = mset (paths_of st year day)" for day
  proof -
    have "mset (if 1 \<le> day \<and> day \<le> 25 then attempted w year day languages' else []) =
          mset (if 1 \<le> day \<and> day \<le> 25 then attempted w year day languages else [])"
      using attempted_perm [OF assms(2)] by simp
    then have "mset (contributors w year day (List.product languages' years)) =
               mset (contributors w year day (List.product languages years))"
      unfolding contributors_product by (rule mset_concat_map)
    with loop_paths [OF l assms(3), of day] loop_paths [OF l' assms(3), of day]
    show ?thesis by (simp add: paths_of_init)
  qed
  have rest: "(\<forall>day. stars_of st' year day = stars_of st year day) \<and>
              total_stars st' year = total_stars st year"
    if agree: "\<forall>day l l'. l \<in> set languages \<and> l' \<in> set languages \<and>
                 lang_ran w l (year, day) \<and> lang_ran w l' (year, day) \<longrightarrow>
                 get_stars self (scores_of st year day) (solution w l year day) =
                 get_stars self (scores_of st year day) (solution w l' year day)"
  proof -
    have stars: "stars_of st' year day = stars_of st year day" for day
    proof (cases "attempted w year day languages = [] \<or> \<not> (1 \<le> day \<and> day \<le> 25)")
      case True
      then have "attempted w year day languages' = [] \<or> \<not> (1 \<le> day \<and> day \<le> 25)"
        using attempted_perm [OF assms(2), of w year day] by auto
      from compose_stars_none [OF st' this] compose_stars_none [OF assms(1) True]
      show ?thesis by simp
    next
      case False
      then have ne: "attempted w year day languages \<noteq> []" and lo: "1 \<le> day" and hi: "day \<le> 25"
        by auto
      have ne': "attempted w year day languages' \<noteq> []"
      proof
        assume "attempted w year day languages' = []"
        with attempted_perm [OF assms(2), of w year day] ne show False by simp
      qed
      from ne have lne: "languages \<noteq> []" by (auto simp: attempted_def)
      from ne' have lne': "languages' \<noteq> []" by (auto simp: attempted_def)
      from compose_snapshot [OF assms(1,3,4) lne] obtain sc where
        sc: "snapshot_for self w init year = Inr sc" and eq: "\<And>d. scores_of st year d = sc d"
        by blast
      from compose_snapshot [OF st' assms(3,4) lne'] obtain sc' where
        sc': "snapshot_for self w init year = Inr sc'" and eq': "\<And>d. scores_of st' year d = sc' d"
        by blast
      from sc sc' eq eq' have e: "scores_of st' year day = scores_of st year day" by simp
      from last_attempted [OF ne] have
        a: "last (attempted w year day languages) \<in> set languages"
           "lang_ran w (last (attempted w year day languages)) (year, day)" by auto
      from last_attempted [OF ne'] seteq have
        b: "last (attempted w year day languages') \<in> set languages"
           "lang_ran w (last (attempted w year day languages')) (year, day)" by auto
      from agree a b have
        "get_stars self (scores_of st year day)
           (solution w (last (attempted w year day languages')) year day) =
         get_stars self (scores_of st year day)
           (solution w (last (attempted w year day languages)) year day)"
        by blast
      with compose_stars_last [OF st' assms(3,4) lo hi ne']
           compose_stars_last [OF assms(1,3,4) lo hi ne] e
      show ?thesis by simp
    qed
    have total: "total_stars st' year = total_stars st year"
    proof (cases "languages = []")
      case True
      with assms(2) have "languages' = []" by simp
      with True assms(1) st' show ?thesis by simp
    next
      case False
      with assms(2) have ne': "languages' \<noteq> []" by auto
      from False assms(4) have m: "(hd languages, year) \<in> set (List.product languages years)"
        by simp
      from ne' assms(4) have m': "(hd languages', year) \<in> set (List.product languages' years)"
        by simp
      from loop_present [OF l m assms(3)] obtain yd where yd: "solve_data st year = Some yd"
        by auto
      from loop_present [OF l' m' assms(3)] obtain yd' where yd': "solve_data st' year = Some yd'"
        by auto
      have i: "\<forall>y yd. solve_data (init :: 'a run) y = Some yd \<longrightarrow>
                 distinct (map fst (day_to_stars yd))"
        by (simp add: init_def)
      from loop_distinct [OF l i] yd have d: "distinct (map fst (day_to_stars yd))" by blast
      from loop_distinct [OF l' i] yd' have d': "distinct (map fst (day_to_stars yd'))" by blast
      have "map_of (day_to_stars yd') = map_of (day_to_stars yd)"
      proof
        fix day
        from stars [of day] yd yd' show "map_of (day_to_stars yd') day = map_of (day_to_stars yd) day"
          by (simp add: stars_of_def)
      qed
      from sum_alist [OF d' d this] yd yd' show ?thesis by (simp add: total_stars_def)
    qed
    from stars total show ?thesis by blast
  qed
  from st' paths rest show ?thesis by blast
qed

text \<open>
  The theorem at python and rust in 2021 under the rule \<open>on_leaderboard\<close>.
\<close>

theorem permuted_languages_witness:
  "\<exists>st st'. compose_solve_data cfg_board w_board [''python'', ''rust''] [2021] = Inr st \<and>
      mset [''rust'', ''python''] = mset [''python'', ''rust''] \<and> has_year w_board 2021 \<and>
      compose_solve_data cfg_board w_board [''rust'', ''python''] [2021] = Inr st' \<and>
      mset (paths_of st' 2021 1) = mset (paths_of st 2021 1) \<and>
      stars_of st' 2021 1 = stars_of st 2021 1 \<and>
      total_stars st' 2021 = total_stars st 2021"
proof -
  from board_2021 obtain st where
    st: "compose_solve_data cfg_board w_board [''python'', ''rust''] [2021] = Inr st"
    by (auto simp: fetches_in_def split: sum.splits)
  have m: "mset [''rust'', ''python''] = mset [''python'', ''rust'']" by simp
  have h: "has_year w_board 2021" by (simp add: w_board_def)
  have y: "(2021::int) \<in> set [2021]" by simp
  have agree: "\<forall>day l l'. l \<in> set [''python'', ''rust''] \<and> l' \<in> set [''python'', ''rust''] \<and>
                 lang_ran w_board l (2021, day) \<and> lang_ran w_board l' (2021, day) \<longrightarrow>
                 get_stars cfg_board (scores_of st 2021 day) (solution w_board l 2021 day) =
                 get_stars cfg_board (scores_of st 2021 day) (solution w_board l' 2021 day)"
    by (simp add: get_stars_def cfg_board_def)
  from permuted_languages [OF st m h y] agree m h st show ?thesis
    by blast
qed

text \<open>
  Claim C3 as stated fails: under \<open>file_exists\<close> the stars of day 1 of 2020 are 1 when
  rust is processed last and 2 when python is processed last.
\<close>

theorem order_changes_stars:
  "stars_in (compose_solve_data cfg_files w_files [''python'', ''rust''] [2020]) 2020 1 =
     Inr (Some 1) \<and>
   stars_in (compose_solve_data cfg_files w_files [''rust'', ''python''] [2020]) 2020 1 =
     Inr (Some 2)"
proof
  show "stars_in (compose_solve_data cfg_files w_files [''python'', ''rust''] [2020]) 2020 1 =
     Inr (Some 1)"
    by code_simp
  show "stars_in (compose_solve_data cfg_files w_files [''rust'', ''python''] [2020]) 2020 1 =
     Inr (Some 2)"
    by code_simp
qed

end
